theory Spec2Isabelle
  imports Complex_Main "HOL-Library.Word"
begin

section \<open>JavaScript strings\<close>

text \<open>
  A JavaScript string is a sequence of UTF-16 code units; \<open>length\<close>, \<open>slice\<close>,
  \<open>lastIndexOf\<close> and regular expressions without the \<open>u\<close> flag all work on code units.
  \<open>str\<close> turns an ASCII literal into such a sequence.
\<close>

type_synonym jschar = "16 word"
type_synonym jsstring = "jschar list"

definition str :: "string \<Rightarrow> jsstring" where
  "str s = map (\<lambda>c. of_nat (of_char c)) s"

text \<open>
  ECMAScript \<open>WhiteSpace\<close> and \<open>LineTerminator\<close> code points: the characters matched by
  \<open>\s\<close> in a regular expression and removed by \<open>trim\<close> and by the first step of \<open>parseInt\<close>.
\<close>

definition is_space :: "jschar \<Rightarrow> bool" where
  "is_space c =
     (c = 0x09 \<or> c = 0x0A \<or> c = 0x0B \<or> c = 0x0C \<or> c = 0x0D \<or> c = 0x20 \<or> c = 0xA0
      \<or> c = 0x1680 \<or> (0x2000 \<le> c \<and> c \<le> 0x200A) \<or> c = 0x2028 \<or> c = 0x2029
      \<or> c = 0x202F \<or> c = 0x205F \<or> c = 0x3000 \<or> c = 0xFEFF)"

definition trim :: "jsstring \<Rightarrow> jsstring" where
  "trim s = rev (dropWhile is_space (rev (dropWhile is_space s)))"

section \<open>JavaScript numbers\<close>

text \<open>
  The numbers that the quantity can hold and that \<open>parseInt\<close> can return: \<open>NaN\<close>, an
  integer, or one of the two infinities. The two zeros are one value here. The program
  adds 1 to a quantity and subtracts 1 from it; sums and differences of finite values are
  exact here, which is what JavaScript computes as long as the values stay below \<open>2^53\<close>
  in magnitude.
\<close>

datatype jsnumber = NaN | Finite int | PosInfinity | NegInfinity

definition isNaN :: "jsnumber \<Rightarrow> bool" where
  "isNaN v = (v = NaN)"

text \<open>\<open>a <= b\<close>, and \<open>a >= b\<close> as \<open>b <= a\<close>: false as soon as one side is \<open>NaN\<close>.\<close>

fun js_le :: "jsnumber \<Rightarrow> jsnumber \<Rightarrow> bool" where
  "js_le NaN b = False"
| "js_le a NaN = False"
| "js_le (Finite x) (Finite y) = (x \<le> y)"
| "js_le NegInfinity b = True"
| "js_le a PosInfinity = True"
| "js_le a b = False"

definition js_ge :: "jsnumber \<Rightarrow> jsnumber \<Rightarrow> bool" where
  "js_ge a b = js_le b a"

fun js_add :: "jsnumber \<Rightarrow> jsnumber \<Rightarrow> jsnumber" where
  "js_add NaN b = NaN"
| "js_add a NaN = NaN"
| "js_add (Finite x) (Finite y) = Finite (x + y)"
| "js_add PosInfinity NegInfinity = NaN"
| "js_add NegInfinity PosInfinity = NaN"
| "js_add PosInfinity b = PosInfinity"
| "js_add a PosInfinity = PosInfinity"
| "js_add NegInfinity b = NegInfinity"
| "js_add a NegInfinity = NegInfinity"

fun js_neg :: "jsnumber \<Rightarrow> jsnumber" where
  "js_neg NaN = NaN"
| "js_neg (Finite x) = Finite (- x)"
| "js_neg PosInfinity = NegInfinity"
| "js_neg NegInfinity = PosInfinity"

definition js_sub :: "jsnumber \<Rightarrow> jsnumber \<Rightarrow> jsnumber" where
  "js_sub a b = js_add a (js_neg b)"

definition Math_min :: "jsnumber \<Rightarrow> jsnumber \<Rightarrow> jsnumber" where
  "Math_min a b = (if isNaN a \<or> isNaN b then NaN else if js_le a b then a else b)"

definition Math_max :: "jsnumber \<Rightarrow> jsnumber \<Rightarrow> jsnumber" where
  "Math_max a b = (if isNaN a \<or> isNaN b then NaN else if js_le a b then b else a)"

text \<open>
  The Number value for a mathematical integer (ECMA-262): the nearest double, ties to
  the even significand, and an infinity from \<open>2^1024\<close> on after rounding. A double has a
  significand of 53 bits, so an integer of more bits is rounded at the bit \<open>e\<close> places
  up, where \<open>e\<close> is its number of bits less 53.
\<close>

function bit_length :: "int \<Rightarrow> nat" where
  "bit_length n = (if n \<le> 0 then 0 else Suc (bit_length (n div 2)))"
  by pat_completeness auto
termination
  by (relation "measure nat") auto

declare bit_length.simps [simp del]

definition round_to_double :: "int \<Rightarrow> int" where
  "round_to_double m =
     (let e = bit_length m - 53; q = m div 2 ^ e; r = m mod 2 ^ e
      in if 2 * r > 2 ^ e \<or> (2 * r = 2 ^ e \<and> odd q) then (q + 1) * 2 ^ e else q * 2 ^ e)"

definition Number_value :: "int \<Rightarrow> jsnumber" where
  "Number_value i =
     (let m = round_to_double \<bar>i\<bar>
      in if m \<ge> 2 ^ 1024 then (if i < 0 then NegInfinity else PosInfinity)
         else Finite (if i < 0 then - m else m))"

section \<open>Product Action State\<close>

text \<open>
  \<open>ProductActionsProvider\<close> holds two \<open>useState\<close> cells, \<open>quantity\<close> (initially 1) and
  \<open>cartStatus\<close> (initially \<open>'idle'\<close>). \<open>handleAddToCart\<close> also registers timers with
  \<open>setTimeout\<close> and draws from \<open>Math.random()\<close>, so the state of the model carries the
  clock (in ms), the pending timers in the order they were registered, and the number of
  random draws made so far.
\<close>

datatype CartStatus = idle | loading | success | error

text \<open>
  The two kinds of function handed to \<open>setTimeout\<close>: the \<open>resolve\<close> of the awaited
  promise, which resumes \<open>handleAddToCart\<close> after its \<open>await\<close>, and
  \<open>() => setCartStatus('idle')\<close>.
\<close>

datatype callback = ResumeAddToCart | SetIdle

record ProductActionsState =
  quantity :: jsnumber
  cartStatus :: CartStatus
  clock :: nat
  timers :: "(nat \<times> callback) list"
  draws :: nat

definition initialState :: ProductActionsState where
  "initialState = \<lparr>quantity = Finite 1, cartStatus = idle, clock = 0, timers = [], draws = 0\<rparr>"

definition setQuantity :: "jsnumber \<Rightarrow> ProductActionsState \<Rightarrow> ProductActionsState" where
  "setQuantity v s = s\<lparr>quantity := v\<rparr>"

definition setCartStatus :: "CartStatus \<Rightarrow> ProductActionsState \<Rightarrow> ProductActionsState" where
  "setCartStatus c s = s\<lparr>cartStatus := c\<rparr>"

definition incrementQuantity :: "ProductActionsState \<Rightarrow> ProductActionsState" where
  "incrementQuantity s =
     setQuantity (Math_min (Finite 10) (js_add (quantity s) (Finite 1))) s"

definition decrementQuantity :: "ProductActionsState \<Rightarrow> ProductActionsState" where
  "decrementQuantity s =
     setQuantity (Math_max (Finite 1) (js_sub (quantity s) (Finite 1))) s"

subsection \<open>Number to string and \<open>parseInt\<close>\<close>

text \<open>
  \<open>Number_toString\<close> is \<open>Number.prototype.toString\<close> on integers of magnitude below
  \<open>10^21\<close>, which JavaScript prints digit by digit (decimal digits, a leading minus sign
  for negative values); it is what a template literal applies to \<open>response.status\<close>.
\<close>

definition digit_char :: "nat \<Rightarrow> jschar" where
  "digit_char d = of_nat (48 + d)"

fun nat_toString :: "nat \<Rightarrow> jsstring" where
  "nat_toString n =
     (if n < 10 then [digit_char n] else nat_toString (n div 10) @ [digit_char (n mod 10)])"

declare nat_toString.simps [simp del]

definition Number_toString :: "int \<Rightarrow> jsstring" where
  "Number_toString i =
     (if i < 0 then 0x2D # nat_toString (nat (- i)) else nat_toString (nat i))"

text \<open>
  \<open>parseInt(string)\<close> with no radix argument, after ECMA-262: skip leading white space,
  read an optional sign, switch to radix 16 after a \<open>0x\<close> or \<open>0X\<close> prefix (radix 10
  otherwise), take the longest prefix of digits of that radix, and return \<open>NaN\<close> when
  that prefix is empty, otherwise the Number value for the signed integer that the digits
  denote. (For more than 20 decimal digits the standard also allows an implementation to
  read the digits after the twentieth as zeros before rounding; the value here is the one
  rounded from all digits.)
\<close>

definition digit_value :: "jschar \<Rightarrow> nat option" where
  "digit_value c =
     (if 0x30 \<le> c \<and> c \<le> 0x39 then Some (unat c - 0x30)
      else if 0x61 \<le> c \<and> c \<le> 0x7A then Some (unat c - 0x61 + 10)
      else if 0x41 \<le> c \<and> c \<le> 0x5A then Some (unat c - 0x41 + 10)
      else None)"

definition is_radix_digit :: "nat \<Rightarrow> jschar \<Rightarrow> bool" where
  "is_radix_digit R c = (case digit_value c of None \<Rightarrow> False | Some d \<Rightarrow> d < R)"

definition radix_value :: "nat \<Rightarrow> jsstring \<Rightarrow> int" where
  "radix_value R Z =
     foldl (\<lambda>acc c. acc * int R + (case digit_value c of None \<Rightarrow> 0 | Some d \<Rightarrow> int d)) 0 Z"

definition parseInt :: "jsstring \<Rightarrow> jsnumber" where
  "parseInt inputString =
     (let S = dropWhile is_space inputString;
          sign = (if S \<noteq> [] \<and> hd S = 0x2D then - 1 else 1);
          S = (if S \<noteq> [] \<and> (hd S = 0x2B \<or> hd S = 0x2D) then tl S else S);
          stripPrefix = (2 \<le> length S \<and> (take 2 S = str ''0x'' \<or> take 2 S = str ''0X''));
          R = (if stripPrefix then 16 else 10);
          S = (if stripPrefix then drop 2 S else S);
          Z = takeWhile (is_radix_digit R) S
      in if Z = [] then NaN else Number_value (sign * radix_value R Z))"

subsection \<open>Quantity Control: direct input\<close>

text \<open>
  \<open>handleInputChange\<close> of \<open>QuantitySpinner\<close>, applied to \<open>e.target.value\<close>:
  \<^verbatim>\<open>const value = parseInt(e.target.value);
  if (!isNaN(value) && value >= 1) { setQuantity(value); }\<close>
\<close>

definition handleInputChange :: "jsstring \<Rightarrow> ProductActionsState \<Rightarrow> ProductActionsState" where
  "handleInputChange target_value s =
     (let value = parseInt target_value
      in if \<not> isNaN value \<and> js_ge value (Finite 1) then setQuantity value s else s)"

subsection \<open>Add to cart: timers and the random outcome\<close>

text \<open>
  \<open>setTimeout(cb, delay)\<close> registers \<open>cb\<close> to run \<open>delay\<close> ms after the current time.
\<close>

definition setTimeout :: "callback \<Rightarrow> nat \<Rightarrow> ProductActionsState \<Rightarrow> ProductActionsState" where
  "setTimeout cb delay s = s\<lparr>timers := timers s @ [(clock s + delay, cb)]\<rparr>"

text \<open>
  \<open>handleAddToCart\<close> up to its \<open>await\<close>: it sets the status and starts the 1000 ms timer
  whose firing resumes it.
\<close>

definition handleAddToCart :: "ProductActionsState \<Rightarrow> ProductActionsState" where
  "handleAddToCart s = setTimeout ResumeAddToCart 1000 (setCartStatus loading s)"

text \<open>
  The rest of \<open>handleAddToCart\<close>, run when the awaited promise resolves. \<open>rnd\<close> is the
  sequence of values that \<open>Math.random()\<close> returns, each in \<open>[0, 1)\<close>; the call takes the
  next one. Nothing inside the \<open>try\<close> block throws (\<open>setTimeout\<close>, \<open>Math.random\<close> and the
  state setters do not, and the awaited promise is never rejected), so the \<open>catch\<close> branch,
  which repeats the error branch, is never entered.
\<close>

definition handleAddToCart_resume ::
  "(nat \<Rightarrow> real) \<Rightarrow> ProductActionsState \<Rightarrow> ProductActionsState" where
  "handleAddToCart_resume rnd s =
     (let r = rnd (draws s); s = s\<lparr>draws := draws s + 1\<rparr>
      in if r > 0.2
         then setTimeout SetIdle 2000 (setCartStatus success s)
         else setTimeout SetIdle 3000 (setCartStatus error s))"

definition runCallback ::
  "(nat \<Rightarrow> real) \<Rightarrow> callback \<Rightarrow> ProductActionsState \<Rightarrow> ProductActionsState" where
  "runCallback rnd cb s =
     (case cb of ResumeAddToCart \<Rightarrow> handleAddToCart_resume rnd s
               | SetIdle \<Rightarrow> setCartStatus idle s)"

text \<open>
  The event loop runs the pending timer with the least due time, the one registered
  first among equals. \<open>fire\<close> moves the clock to the due time, removes the timer and runs
  its callback.
\<close>

fun earliest :: "(nat \<times> callback) list \<Rightarrow> (nat \<times> callback) option" where
  "earliest [] = None"
| "earliest (x # xs) =
     (case earliest xs of
        None \<Rightarrow> Some x
      | Some y \<Rightarrow> if fst y < fst x then Some y else Some x)"

definition fire ::
  "(nat \<Rightarrow> real) \<Rightarrow> nat \<times> callback \<Rightarrow> ProductActionsState \<Rightarrow> ProductActionsState" where
  "fire rnd t s =
     runCallback rnd (snd t) (s\<lparr>clock := max (clock s) (fst t), timers := remove1 t (timers s)\<rparr>)"

text \<open>
  What can happen to the state: a call of one of the functions the context exposes, a
  change of the quantity input, a due timer firing, or time passing. Time passes at most
  up to the next due time, so a timer fires exactly when it is due.
\<close>

datatype operation =
    IncrementQuantity
  | DecrementQuantity
  | SetQuantity jsnumber
  | SetCartStatus CartStatus
  | HandleAddToCart
  | HandleInputChange jsstring
  | TimerFires
  | TimePasses nat

fun step :: "(nat \<Rightarrow> real) \<Rightarrow> operation \<Rightarrow> ProductActionsState \<Rightarrow> ProductActionsState" where
  "step rnd IncrementQuantity s = incrementQuantity s"
| "step rnd DecrementQuantity s = decrementQuantity s"
| "step rnd (SetQuantity v) s = setQuantity v s"
| "step rnd (SetCartStatus c) s = setCartStatus c s"
| "step rnd HandleAddToCart s = handleAddToCart s"
| "step rnd (HandleInputChange v) s = handleInputChange v s"
| "step rnd TimerFires s =
     (case earliest (timers s) of
        None \<Rightarrow> s
      | Some t \<Rightarrow> if fst t \<le> clock s then fire rnd t s else s)"
| "step rnd (TimePasses d) s =
     (case earliest (timers s) of
        None \<Rightarrow> s\<lparr>clock := clock s + d\<rparr>
      | Some t \<Rightarrow> s\<lparr>clock := max (clock s) (min (clock s + d) (fst t))\<rparr>)"

fun run :: "(nat \<Rightarrow> real) \<Rightarrow> operation list \<Rightarrow> ProductActionsState \<Rightarrow> ProductActionsState" where
  "run rnd [] s = s"
| "run rnd (x # xs) s = run rnd xs (step rnd x s)"

text \<open>A source of random draws that returns the same value every time.\<close>

definition always :: "real \<Rightarrow> nat \<Rightarrow> real" where
  "always r n = r"

text \<open>
  \<open>advance rnd t\<close> lets the clock reach \<open>t\<close> with no call from outside: every timer that
  comes due on the way fires, in order, including timers registered by the callbacks
  themselves. It terminates because a resumed \<open>handleAddToCart\<close> registers one \<open>SetIdle\<close>
  timer and \<open>SetIdle\<close> registers none.
\<close>

fun weight :: "(nat \<times> callback) list \<Rightarrow> nat" where
  "weight [] = 0"
| "weight (t # ts) = (case snd t of ResumeAddToCart \<Rightarrow> 2 | SetIdle \<Rightarrow> 1) + weight ts"

lemma earliest_mem: "earliest ts = Some t \<Longrightarrow> t \<in> set ts"
  by (induction ts arbitrary: t) (auto split: option.splits if_splits)

lemma weight_remove1:
  "t \<in> set ts \<Longrightarrow>
   weight (remove1 t ts) + (case snd t of ResumeAddToCart \<Rightarrow> 2 | SetIdle \<Rightarrow> 1) = weight ts"
  by (induction ts) (auto split: callback.splits)

lemma weight_append: "weight (xs @ ys) = weight xs + weight ys"
  by (induction xs) auto

lemma weight_fire:
  "earliest (timers s) = Some t \<Longrightarrow> weight (timers (fire rnd t s)) < weight (timers s)"
  using weight_remove1[OF earliest_mem, of "timers s" t]
  by (auto simp: fire_def runCallback_def handleAddToCart_resume_def setTimeout_def
      setCartStatus_def Let_def weight_append split: callback.splits)

function advance :: "(nat \<Rightarrow> real) \<Rightarrow> nat \<Rightarrow> ProductActionsState \<Rightarrow> ProductActionsState" where
  "advance rnd t s =
     (case earliest (timers s) of
        None \<Rightarrow> s\<lparr>clock := max (clock s) t\<rparr>
      | Some tm \<Rightarrow>
          if fst tm \<le> t then advance rnd t (fire rnd tm s)
          else s\<lparr>clock := max (clock s) t\<rparr>)"
  by pat_completeness auto
termination
  by (relation "measure (\<lambda>(rnd, t, s). weight (timers s))") (auto simp: weight_fire)

declare advance.simps [simp del]

subsection \<open>The status edges of the specification\<close>

text \<open>
  The five edges the specification lists for the cart-submission status, and the check
  that every step of a run either keeps the status or follows one of them.
\<close>

definition allowed_edge :: "CartStatus \<Rightarrow> CartStatus \<Rightarrow> bool" where
  "allowed_edge a b =
     ((a = idle \<and> b = loading) \<or> (a = loading \<and> b = success) \<or> (a = loading \<and> b = error)
      \<or> (a = success \<and> b = idle) \<or> (a = error \<and> b = idle))"

fun edges_respected :: "(nat \<Rightarrow> real) \<Rightarrow> operation list \<Rightarrow> ProductActionsState \<Rightarrow> bool" where
  "edges_respected rnd [] s = True"
| "edges_respected rnd (x # xs) s =
     ((cartStatus (step rnd x s) = cartStatus s
       \<or> allowed_edge (cartStatus s) (cartStatus (step rnd x s)))
      \<and> edges_respected rnd xs (step rnd x s))"

text \<open>
  A run in which \<open>handleAddToCart\<close> is only called while the status is \<open>idle\<close> and
  \<open>setCartStatus\<close> is never called from outside.
\<close>

fun permitted :: "operation \<Rightarrow> ProductActionsState \<Rightarrow> bool" where
  "permitted HandleAddToCart s = (cartStatus s = idle)"
| "permitted (SetCartStatus c) s = False"
| "permitted x s = True"

fun submits_from_idle :: "(nat \<Rightarrow> real) \<Rightarrow> operation list \<Rightarrow> ProductActionsState \<Rightarrow> bool" where
  "submits_from_idle rnd [] s = True"
| "submits_from_idle rnd (x # xs) s = (permitted x s \<and> submits_from_idle rnd xs (step rnd x s))"

text \<open>
  While a single submission is in flight there is exactly one pending timer, and its kind
  is fixed by the status.
\<close>

definition one_submission :: "ProductActionsState \<Rightarrow> bool" where
  "one_submission s =
     (map snd (timers s) =
        (case cartStatus s of
           idle \<Rightarrow> [] | loading \<Rightarrow> [ResumeAddToCart]
         | success \<Rightarrow> [SetIdle] | error \<Rightarrow> [SetIdle]))"

section \<open>Product Data Client\<close>

text \<open>
  What \<open>response.json()\<close> can resolve to: the values that \<open>JSON.parse\<close> builds, which are
  primitives, arrays and plain objects whose own properties are again such values (none
  of them callable). Numbers are restricted to the integers that a Number holds exactly
  and prints with its decimal digits, and an object lists each of its properties once.
\<close>

datatype json =
    JNull
  | JBool bool
  | JNum int
  | JStr jsstring
  | JArr "json list"
  | JObj "(jsstring \<times> json) list"

text \<open>
  \<open>class ApiError extends Error\<close> with its \<open>message\<close>, \<open>status\<close> and optional \<open>error\<close>
  (\<open>None\<close> is \<open>undefined\<close>).
\<close>

datatype ApiError = ApiError (message: jsstring) (status: int) (error_field: "jsstring option")

text \<open>
  A thrown value is an \<open>ApiError\<close> or anything else (a \<open>TypeError\<close> of \<open>fetch\<close>, a
  \<open>SyntaxError\<close> of the JSON parser, an \<open>AbortError\<close>, ...), kept by its name. An awaited
  promise resolves to a value or rejects with a thrown value.
\<close>

datatype thrown = ThrownApiError ApiError | ThrownOther string

datatype 'a settled = Resolved 'a | Rejected thrown

text \<open>
  A \<open>Response\<close> as far as the client reads it: its status and the outcome of \<open>json()\<close>.
  \<open>response.ok\<close> is, by the Fetch standard, true for a status from 200 to 299.
\<close>

datatype Response = Response (response_status: int) (response_json: "json settled")

definition ok :: "Response \<Rightarrow> bool" where
  "ok response = (200 \<le> response_status response \<and> response_status response \<le> 299)"

text \<open>
  The pieces of JavaScript that \<open>errorData.message || '...'\<close> relies on: reading the
  property \<open>message\<close> (a \<open>TypeError\<close> on \<open>null\<close>, \<open>undefined\<close>, here \<open>None\<close>, when the value
  has no such property) and truthiness.
\<close>

fun get_message :: "json \<Rightarrow> thrown + json option" where
  "get_message JNull = Inl (ThrownOther ''TypeError'')"
| "get_message (JObj props) = Inr (map_of props (str ''message''))"
| "get_message v = Inr None"

fun truthy :: "json \<Rightarrow> bool" where
  "truthy JNull = False"
| "truthy (JBool b) = b"
| "truthy (JNum n) = (n \<noteq> 0)"
| "truthy (JStr s) = (s \<noteq> [])"
| "truthy (JArr xs) = True"
| "truthy (JObj props) = True"

fun or_else :: "json option \<Rightarrow> json \<Rightarrow> json" where
  "or_else None d = d"
| "or_else (Some v) d = (if truthy v then v else d)"

fun join_comma :: "jsstring list \<Rightarrow> jsstring" where
  "join_comma [] = []"
| "join_comma [x] = x"
| "join_comma (x # y # ys) = x @ 0x2C # join_comma (y # ys)"

text \<open>
  \<open>ToString\<close>, which the \<open>Error\<close> constructor applies to its \<open>message\<close> argument; \<open>Inl\<close> is a
  throw. A primitive converts directly. An object goes through \<open>ToPrimitive\<close> with hint
  string, which calls its \<open>toString\<close> method and then its \<open>valueOf\<close> method and takes the
  first result that is a primitive:
  \<^item> a plain object without an own property \<open>toString\<close> inherits \<open>Object.prototype.toString\<close>
    and converts to \<open>[object Object]\<close>;
  \<^item> a plain object with an own property \<open>toString\<close> has a value there that is not callable,
    so that method is skipped, and \<open>valueOf\<close> (its own, not callable, or the inherited one,
    which returns the object itself) gives no primitive either: a \<open>TypeError\<close>;
  \<^item> an array inherits \<open>Array.prototype.toString\<close>, which joins the conversions of its
    elements with commas, \<open>null\<close> counting as the empty string; the conversion of an
    element may throw, and the first throw is the outcome.
\<close>

fun first_throw :: "(thrown + 'a) list \<Rightarrow> thrown + 'a list" where
  "first_throw [] = Inr []"
| "first_throw (Inl e # rest) = Inl e"
| "first_throw (Inr x # rest) =
     (case first_throw rest of Inl e \<Rightarrow> Inl e | Inr xs \<Rightarrow> Inr (x # xs))"

fun ToString :: "json \<Rightarrow> thrown + jsstring" where
  "ToString JNull = Inr (str ''null'')"
| "ToString (JBool b) = Inr (if b then str ''true'' else str ''false'')"
| "ToString (JNum n) = Inr (Number_toString n)"
| "ToString (JStr s) = Inr s"
| "ToString (JArr xs) =
     (case first_throw (map (\<lambda>x. if x = JNull then Inr [] else ToString x) xs) of
        Inl e \<Rightarrow> Inl e
      | Inr parts \<Rightarrow> Inr (join_comma parts))"
| "ToString (JObj props) =
     (if map_of props (str ''toString'') \<noteq> None then Inl (ThrownOther ''TypeError'')
      else Inr (str ''[object Object]''))"

text \<open>
  \<open>throw new ApiError(message, status, error)\<close>: the constructor passes \<open>message\<close> to
  \<open>super\<close>, which converts it to a string, so what is thrown is the new \<open>ApiError\<close> or the
  \<open>TypeError\<close> of the conversion.
\<close>

definition throw_new_ApiError :: "json \<Rightarrow> int \<Rightarrow> jsstring option \<Rightarrow> thrown" where
  "throw_new_ApiError message' status' error' =
     (case ToString message' of
        Inl e \<Rightarrow> e
      | Inr msg \<Rightarrow> ThrownApiError (ApiError msg status' error'))"

definition not_found_message :: jsstring where
  "not_found_message = str ''Produto n'' @ [0xE3] @ str ''o encontrado''"

definition connection_message :: jsstring where
  "connection_message = str ''Erro de conex'' @ [0xE3] @ str ''o com o servidor''"

text \<open>
  The \<open>try\<close> block of \<open>getProductBySku\<close>, given what the awaited \<open>fetch\<close> settled to;
  \<open>Inl\<close> is a throw inside the block.
\<close>

definition try_block :: "Response settled \<Rightarrow> thrown + json" where
  "try_block fetched =
     (case fetched of
        Rejected e \<Rightarrow> Inl e
      | Resolved response \<Rightarrow>
          if \<not> ok response then
            if response_status response = 404 then
              (case response_json response of
                 Rejected e \<Rightarrow> Inl e
               | Resolved errorData \<Rightarrow>
                   (case get_message errorData of
                      Inl e \<Rightarrow> Inl e
                    | Inr m \<Rightarrow>
                        Inl (throw_new_ApiError (or_else m (JStr not_found_message)) 404
                               (Some (str ''Not Found'')))))
            else
              Inl (throw_new_ApiError
                (JStr (str ''Erro na API: '' @ Number_toString (response_status response)))
                (response_status response) None)
          else
            (case response_json response of
               Rejected e \<Rightarrow> Inl e
             | Resolved product \<Rightarrow> Inr product))"

text \<open>
  \<open>getProductBySku\<close>: the \<open>try\<close> block and its \<open>catch\<close>, which re-throws an \<open>ApiError\<close> and
  replaces anything else. \<open>API_BASE_URL\<close> and \<open>fetch\<close> (from the requested URL to what the
  call settles to) are the environment.
\<close>

definition product_url :: "jsstring \<Rightarrow> jsstring \<Rightarrow> jsstring" where
  "product_url API_BASE_URL sku = API_BASE_URL @ str ''/products/'' @ sku"

definition getProductBySku ::
  "jsstring \<Rightarrow> (jsstring \<Rightarrow> Response settled) \<Rightarrow> jsstring \<Rightarrow> thrown + json" where
  "getProductBySku API_BASE_URL fetch sku =
     (case try_block (fetch (product_url API_BASE_URL sku)) of
        Inr product \<Rightarrow> Inr product
      | Inl (ThrownApiError e) \<Rightarrow> Inl (ThrownApiError e)
      | Inl (ThrownOther x) \<Rightarrow> Inl (throw_new_ApiError (JStr connection_message) 500 None))"

text \<open>
  A \<open>fetch\<close> that settles the same way whatever the URL, and the default base URL.
\<close>

definition responds :: "Response settled \<Rightarrow> jsstring \<Rightarrow> Response settled" where
  "responds outcome url = outcome"

definition localhost :: jsstring where
  "localhost = str ''http://localhost:3000''"

text \<open>The three error kinds of the specification, as shapes of the \<open>ApiError\<close> thrown.\<close>

definition is_NotFound :: "ApiError \<Rightarrow> bool" where
  "is_NotFound e = (status e = 404 \<and> error_field e = Some (str ''Not Found''))"

definition is_HttpError :: "int \<Rightarrow> ApiError \<Rightarrow> bool" where
  "is_HttpError st e = (e = ApiError (str ''Erro na API: '' @ Number_toString st) st None)"

definition is_ConnectionError :: "ApiError \<Rightarrow> bool" where
  "is_ConnectionError e = (e = ApiError connection_message 500 None)"

section \<open>Formatting utilities\<close>

subsection \<open>\<open>generateSlug\<close>\<close>

text \<open>
  The character classes of the regular expressions in \<open>generateSlug\<close>.
\<close>

definition hyphen :: jschar where
  "hyphen = 0x2D"

definition is_hyphen :: "jschar \<Rightarrow> bool" where
  "is_hyphen c = (c = hyphen)"

definition is_lower_or_digit :: "jschar \<Rightarrow> bool" where
  "is_lower_or_digit c = ((0x61 \<le> c \<and> c \<le> 0x7A) \<or> (0x30 \<le> c \<and> c \<le> 0x39))"

definition is_combining_mark :: "jschar \<Rightarrow> bool" where
  "is_combining_mark c = (0x0300 \<le> c \<and> c \<le> 0x036F)"

definition is_special :: "jschar \<Rightarrow> bool" where
  "is_special c = (\<not> (is_lower_or_digit c \<or> is_space c \<or> c = hyphen))"

text \<open>
  \<open>s.replace(/[...]/g, '')\<close> deletes every code unit of the class;
  \<open>s.replace(/[...]+/g, r)\<close> puts \<open>r\<close> in place of every maximal run of code units of
  the class; \<open>s.replace(/^-+|-+$/g, '')\<close> deletes the run of hyphens at the start and the
  run at the end.
\<close>

definition delete_all :: "(jschar \<Rightarrow> bool) \<Rightarrow> jsstring \<Rightarrow> jsstring" where
  "delete_all P s = filter (\<lambda>c. \<not> P c) s"

function replace_runs :: "(jschar \<Rightarrow> bool) \<Rightarrow> jsstring \<Rightarrow> jsstring \<Rightarrow> jsstring" where
  "replace_runs P r [] = []"
| "replace_runs P r (c # cs) =
     (if P c then r @ replace_runs P r (dropWhile P cs) else c # replace_runs P r cs)"
  by pat_completeness auto
termination
  by (relation "measure (\<lambda>(P, r, s). length s)")
    (auto simp: le_imp_less_Suc length_dropWhile_le)

definition strip_hyphens :: "jsstring \<Rightarrow> jsstring" where
  "strip_hyphens s = rev (dropWhile is_hyphen (rev (dropWhile is_hyphen s)))"

text \<open>
  \<open>generateSlug\<close>, step by step as the source chains them. \<open>String.prototype.toLowerCase\<close>
  and \<open>normalize('NFD')\<close> are functions of the JavaScript runtime over all of Unicode; they
  are parameters of the model.
\<close>

definition generateSlug ::
  "(jsstring \<Rightarrow> jsstring) \<Rightarrow> (jsstring \<Rightarrow> jsstring) \<Rightarrow> jsstring \<Rightarrow> jsstring" where
  "generateSlug toLowerCase normalizeNFD text =
     trim
       (strip_hyphens
         (replace_runs is_hyphen [hyphen]
           (replace_runs is_space [hyphen]
             (delete_all is_special
               (delete_all is_combining_mark
                 (normalizeNFD (toLowerCase text)))))))"

text \<open>
  The two runtime functions on the Basic Latin and Latin-1 Supplement blocks (code units
  below \<open>0x100\<close>), where they work code unit by code unit: upper-case letters are \<open>0x20\<close>
  below their lower-case forms, and the canonical decomposition of an accented letter is
  its base letter followed by one combining mark. Code units from \<open>0x100\<close> on are left as
  they are, so these two functions agree with the runtime on strings below \<open>0x100\<close> only.
\<close>

definition toLowerCase_latin1 :: "jsstring \<Rightarrow> jsstring" where
  "toLowerCase_latin1 s =
     map (\<lambda>c. if (0x41 \<le> c \<and> c \<le> 0x5A) \<or> (0xC0 \<le> c \<and> c \<le> 0xDE \<and> c \<noteq> 0xD7)
               then c + 0x20 else c) s"

definition decompose_upper :: "jschar \<Rightarrow> jsstring" where
  "decompose_upper c =
     (if c = 0xC0 then [0x41, 0x300] else if c = 0xC1 then [0x41, 0x301]
      else if c = 0xC2 then [0x41, 0x302] else if c = 0xC3 then [0x41, 0x303]
      else if c = 0xC4 then [0x41, 0x308] else if c = 0xC5 then [0x41, 0x30A]
      else if c = 0xC7 then [0x43, 0x327]
      else if c = 0xC8 then [0x45, 0x300] else if c = 0xC9 then [0x45, 0x301]
      else if c = 0xCA then [0x45, 0x302] else if c = 0xCB then [0x45, 0x308]
      else if c = 0xCC then [0x49, 0x300] else if c = 0xCD then [0x49, 0x301]
      else if c = 0xCE then [0x49, 0x302] else if c = 0xCF then [0x49, 0x308]
      else if c = 0xD1 then [0x4E, 0x303]
      else if c = 0xD2 then [0x4F, 0x300] else if c = 0xD3 then [0x4F, 0x301]
      else if c = 0xD4 then [0x4F, 0x302] else if c = 0xD5 then [0x4F, 0x303]
      else if c = 0xD6 then [0x4F, 0x308]
      else if c = 0xD9 then [0x55, 0x300] else if c = 0xDA then [0x55, 0x301]
      else if c = 0xDB then [0x55, 0x302] else if c = 0xDC then [0x55, 0x308]
      else if c = 0xDD then [0x59, 0x301]
      else [c])"

definition decompose :: "jschar \<Rightarrow> jsstring" where
  "decompose c =
     (if c = 0xFF then [0x79, 0x308]
      else if 0xE0 \<le> c \<and> c \<le> 0xFD then
        (case decompose_upper (c - 0x20) of
           [b, m] \<Rightarrow> [b + 0x20, m]
         | _ \<Rightarrow> [c])
      else decompose_upper c)"

definition normalizeNFD_latin1 :: "jsstring \<Rightarrow> jsstring" where
  "normalizeNFD_latin1 s = concat (map decompose s)"

text \<open>
  The regular expression \<open>^[a-z0-9]+(-[a-z0-9]+)*$\<close> of the specification, as a matcher:
  a string matches when it starts with a letter or digit, and what follows a letter or
  digit is the end, a further letter or digit, or a hyphen and a string that matches.
\<close>

fun matches_slug_pattern :: "jsstring \<Rightarrow> bool" where
  "matches_slug_pattern [] = False"
| "matches_slug_pattern [c] = is_lower_or_digit c"
| "matches_slug_pattern (c # d # s) =
     (is_lower_or_digit c
      \<and> (if d = hyphen then matches_slug_pattern s else matches_slug_pattern (d # s)))"

text \<open>
  The code units a slug is made of, the absence of two neighbours of one class, and the
  shape of a slug: slug characters only, no two hyphens in a row, no hyphen at either end.
\<close>

definition slug_char :: "jschar \<Rightarrow> bool" where
  "slug_char c = (is_lower_or_digit c \<or> c = hyphen)"

fun no_adjacent :: "(jschar \<Rightarrow> bool) \<Rightarrow> jsstring \<Rightarrow> bool" where
  "no_adjacent P [] = True"
| "no_adjacent P [c] = True"
| "no_adjacent P (c # d # s) = (\<not> (P c \<and> P d) \<and> no_adjacent P (d # s))"

definition slug_shape :: "jsstring \<Rightarrow> bool" where
  "slug_shape s =
     (list_all slug_char s \<and> no_adjacent is_hyphen s
      \<and> (s = [] \<or> (\<not> is_hyphen (hd s) \<and> \<not> is_hyphen (last s))))"

text \<open>A text of the repository's tests for \<open>generateSlug\<close>, with its two accented letters.\<close>

definition sofa :: jsstring where
  "sofa = str ''Sof'' @ [0xE1] @ str '' Confort'' @ [0xE1] @ str ''vel''"

subsection \<open>\<open>truncateText\<close>\<close>

text \<open>
  \<open>text.slice(0, end)\<close> for an integer \<open>end\<close> (a negative \<open>end\<close> counts from the end of the
  string) and \<open>s.lastIndexOf(c)\<close> for a single code unit (\<open>-1\<close> when \<open>c\<close> does not occur).
\<close>

definition slice0 :: "jsstring \<Rightarrow> int \<Rightarrow> jsstring" where
  "slice0 s e = take (nat (if e < 0 then max 0 (int (length s) + e) else e)) s"

fun lastIndexOf :: "jsstring \<Rightarrow> jschar \<Rightarrow> int" where
  "lastIndexOf [] c = - 1"
| "lastIndexOf (x # xs) c =
     (let i = lastIndexOf xs c in if i \<ge> 0 then i + 1 else if x = c then 0 else - 1)"

text \<open>
  \<open>truncateText(text, maxLength, suffix)\<close> for an integer \<open>maxLength\<close>. The comparison
  \<open>lostChars <= Math.max(3, availableLength * 0.3)\<close> is taken over the reals: for every
  length a string can have, the double-precision product is the exact one when that is
  an integer and lies on the same side of every integer otherwise.
\<close>

definition truncateText :: "jsstring \<Rightarrow> int \<Rightarrow> jsstring \<Rightarrow> jsstring" where
  "truncateText text maxLength suffix =
     (if int (length text) \<le> maxLength then text
      else if suffix \<noteq> [] \<and> maxLength < int (length suffix) then slice0 text maxLength @ suffix
      else if suffix = [] then trim (slice0 text maxLength)
      else
        let availableLength = maxLength - int (length suffix);
            truncated = slice0 text availableLength;
            lastSpaceIndex = lastIndexOf truncated 0x20;
            truncated =
              (if lastSpaceIndex > 0 \<and> availableLength > 10 then
                 let lostChars = availableLength - lastSpaceIndex
                 in if real_of_int lostChars \<le> max 3 (real_of_int availableLength * 0.3)
                    then slice0 truncated lastSpaceIndex else truncated
               else truncated)
        in trim truncated @ suffix)"

text \<open>Two texts of the repository's tests for \<open>truncateText\<close>.\<close>

definition longText :: jsstring where
  "longText = str ''This is a very long text that needs to be truncated for display purposes in the user interface.''"

definition quickFox :: jsstring where
  "quickFox = str ''The quick brown fox jumps over the lazy dog''"

section \<open>Verification: Product Action State and Quantity Control\<close>

subsection \<open>Arithmetic on finite numbers\<close>

lemma Math_min_Finite [simp]: "Math_min (Finite a) (Finite b) = Finite (min a b)"
  by (simp add: Math_min_def isNaN_def min_def)

lemma Math_max_Finite [simp]: "Math_max (Finite a) (Finite b) = Finite (max a b)"
  by (simp add: Math_max_def isNaN_def max_def)

lemma js_sub_Finite [simp]: "js_sub (Finite a) (Finite b) = Finite (a - b)"
  by (simp add: js_sub_def)


lemma js_le_refl: "\<not> isNaN v \<Longrightarrow> js_le v v"
  by (cases v) (auto simp: isNaN_def)

subsection \<open>Stepper buttons\<close>









subsection \<open>Direct input\<close>

lemma unat_digit_char: "d < 10 \<Longrightarrow> unat (digit_char d) = 48 + d"
  by (simp add: digit_char_def unat_of_nat del: of_nat_add)

lemma digit_char_props:
  assumes "d < 10"
  shows "digit_value (digit_char d) = Some d" "\<not> is_space (digit_char d)"
    "digit_char d \<noteq> 0x2D" "digit_char d \<noteq> 0x2B" "digit_char d \<noteq> 0x78" "digit_char d \<noteq> 0x58"
  using assms
  by (simp_all add: digit_value_def is_space_def word_le_nat_alt word_unat_eq_iff unat_digit_char)

lemma radix_value_snoc:
  "radix_value R (xs @ [c]) =
   radix_value R xs * int R + (case digit_value c of None \<Rightarrow> 0 | Some d \<Rightarrow> int d)"
  by (simp add: radix_value_def)

lemma radix_value_nonneg: "0 \<le> radix_value R Z"
proof (induction Z rule: rev_induct)
  case Nil
  then show ?case by (simp add: radix_value_def)
next
  case (snoc c Z)
  then show ?case by (simp add: radix_value_snoc split: option.splits)
qed

lemma nat_toString_digits: "c \<in> set (nat_toString n) \<Longrightarrow> \<exists>d<10. c = digit_char d"
proof (induction n rule: nat_toString.induct)
  case (1 n)
  show ?case
  proof (cases "n < 10")
    case True
    with 1(2) show ?thesis by (subst (asm) nat_toString.simps) auto
  next
    case False
    with 1 show ?thesis
      by (subst (asm) (2) nat_toString.simps) (auto intro: exI[of _ "n mod 10"])
  qed
qed

lemma nat_toString_nonempty: "nat_toString n \<noteq> []"
  by (subst nat_toString.simps) simp

lemma radix_value_nat_toString: "radix_value 10 (nat_toString n) = int n"
proof (induction n rule: nat_toString.induct)
  case (1 n)
  show ?case
  proof (cases "n < 10")
    case True
    then show ?thesis by (subst nat_toString.simps) (simp add: radix_value_def digit_char_props)
  next
    case False
    with 1 have "radix_value 10 (nat_toString (n div 10)) = int (n div 10)" by simp
    with False show ?thesis
      by (subst nat_toString.simps) (simp add: radix_value_snoc digit_char_props zdiv_int zmod_int)
  qed
qed

text \<open>A non-empty string of decimal digits has no sign, no prefix and no tail to drop.\<close>

lemma parseInt_digits:
  assumes "S \<noteq> []" "\<forall>c\<in>set S. \<exists>d<10. c = digit_char d"
  shows "parseInt S = Number_value (radix_value 10 S)"
proof -
  obtain c S' where S: "S = c # S'" using assms(1) by (cases S) auto
  from assms(2) S obtain d where d: "d < 10" "c = digit_char d" by auto
  have all: "\<forall>c\<in>set S. is_radix_digit 10 c"
    using assms(2) by (auto simp: is_radix_digit_def digit_char_props)
  have nostrip: "\<not> (2 \<le> length S \<and> (take 2 S = str ''0x'' \<or> take 2 S = str ''0X''))"
  proof (cases S')
    case Nil
    then show ?thesis using S by simp
  next
    case (Cons e S'')
    with assms(2) S obtain d' where "d' < 10" "e = digit_char d'" by auto
    then show ?thesis using S Cons digit_char_props(5,6)[of d'] by (auto simp: str_def)
  qed
  have tw: "takeWhile (is_radix_digit 10) S = S"
    using all by simp
  have dw: "dropWhile is_space S = S" using S d digit_char_props(2)[of d] by simp
  have hd: "hd S \<noteq> 0x2D" "hd S \<noteq> 0x2B" using S d digit_char_props(3,4)[of d] by auto
  show ?thesis
    unfolding parseInt_def Let_def dw using hd nostrip assms(1) by (auto simp: tw)
qed

lemma parseInt_minus_digits:
  assumes "S \<noteq> []" "\<forall>c\<in>set S. \<exists>d<10. c = digit_char d"
  shows "parseInt (0x2D # S) = Number_value (- radix_value 10 S)"
proof -
  obtain c S' where S: "S = c # S'" using assms(1) by (cases S) auto
  have all: "takeWhile (is_radix_digit 10) S = S"
    using assms(2) by (auto simp: is_radix_digit_def digit_char_props)
  have nostrip: "\<not> (2 \<le> length S \<and> (take 2 S = str ''0x'' \<or> take 2 S = str ''0X''))"
  proof (cases S')
    case Nil
    then show ?thesis using S by simp
  next
    case (Cons e S'')
    with assms(2) S obtain d' where "d' < 10" "e = digit_char d'" by auto
    then show ?thesis using S Cons digit_char_props(5,6)[of d'] by (auto simp: str_def)
  qed
  have "\<not> is_space 0x2D" by (simp add: is_space_def)
  then show ?thesis
    unfolding parseInt_def Let_def using nostrip assms(1) by (auto simp: all)
qed

text \<open>Parsing the decimal digits of an integer gives the Number value for that integer.\<close>

lemma parseInt_Number_toString: "parseInt (Number_toString i) = Number_value i"
proof (cases "i < 0")
  case False
  then show ?thesis
    using parseInt_digits[of "nat_toString (nat i)"] nat_toString_digits nat_toString_nonempty
    by (auto simp: Number_toString_def radix_value_nat_toString)
next
  case True
  then show ?thesis
    using parseInt_minus_digits[of "nat_toString (nat (- i))"] nat_toString_digits
      nat_toString_nonempty
    by (auto simp: Number_toString_def radix_value_nat_toString)
qed

text \<open>Integers that fit the significand are their own Number value.\<close>

lemma bit_length_le: "m < 2 ^ k \<Longrightarrow> bit_length m \<le> k"
proof (induction k arbitrary: m)
  case 0
  then show ?case by (subst bit_length.simps) simp
next
  case (Suc k)
  then have "m div 2 < 2 ^ k" by simp
  with Suc.IH have "bit_length (m div 2) \<le> k" by blast
  then show ?case by (subst bit_length.simps) simp
qed

lemma round_to_double_exact: "m < 2 ^ 53 \<Longrightarrow> round_to_double m = m"
  using bit_length_le[of m 53] by (simp add: round_to_double_def Let_def)

lemma round_to_double_nonneg: "0 \<le> m \<Longrightarrow> 0 \<le> round_to_double m"
  by (simp add: round_to_double_def Let_def pos_imp_zdiv_nonneg_iff)

lemma Number_value_exact: "\<bar>i\<bar> < 2 ^ 53 \<Longrightarrow> Number_value i = Finite i"
proof -
  assume a: "\<bar>i\<bar> < 2 ^ 53"
  then have r: "round_to_double \<bar>i\<bar> = \<bar>i\<bar>" by (rule round_to_double_exact)
  have "\<bar>i\<bar> < (2::int) ^ 1024"
    using a power_strict_increasing[of 53 1024 "2::int"] by linarith
  then show ?thesis by (auto simp: Number_value_def Let_def r)
qed

lemma Number_value_below_one: "i < 1 \<Longrightarrow> \<not> js_le (Finite 1) (Number_value i)"
  using round_to_double_nonneg[of "\<bar>i\<bar>"]
  by (auto simp: Number_value_def Let_def round_to_double_exact)

lemma handleInputChange_cases:
  "handleInputChange v s =
     (if \<not> isNaN (parseInt v) \<and> js_ge (parseInt v) (Finite 1)
      then s\<lparr>quantity := parseInt v\<rparr> else s)"
  by (simp add: handleInputChange_def setQuantity_def Let_def)

text \<open>
  C6. On the direct-input path, an input for which \<open>parseInt\<close> returns a number of at
  least 1 has that number stored as \<open>parseInt\<close> returned it, with no upper clamp, and
  nothing else in the state changes; any other input (not a number, zero, negative) leaves
  the whole state as it was. The number that \<open>parseInt\<close> returns for a string of decimal
  digits is the Number value for the integer they denote. In particular typing the digits
  of any integer \<open>n\<close> from 1 to below \<open>2^53\<close>, above 10 or not, stores exactly \<open>n\<close>, and
  typing the digits of an integer below 1 changes nothing.
\<close>

theorem direct_input_verbatim:
  "(\<not> isNaN (parseInt v) \<and> js_ge (parseInt v) (Finite 1) \<longrightarrow>
      handleInputChange v s = s\<lparr>quantity := parseInt v\<rparr>)
   \<and> (isNaN (parseInt v) \<or> \<not> js_ge (parseInt v) (Finite 1) \<longrightarrow> handleInputChange v s = s)
   \<and> (parseInt v = Finite k \<longrightarrow> js_ge (parseInt v) (Finite 1) = (1 \<le> k))
   \<and> (S \<noteq> [] \<and> (\<forall>c\<in>set S. \<exists>d<10. c = digit_char d) \<longrightarrow>
        parseInt S = Number_value (radix_value 10 S))
   \<and> parseInt (Number_toString n) = Number_value n
   \<and> (1 \<le> n \<and> n < 2 ^ 53 \<longrightarrow>
        handleInputChange (Number_toString n) s = s\<lparr>quantity := Finite n\<rparr>)
   \<and> (n < 1 \<longrightarrow> handleInputChange (Number_toString n) s = s)"
proof -
  have 1: "\<not> isNaN (parseInt v) \<and> js_ge (parseInt v) (Finite 1) \<longrightarrow>
      handleInputChange v s = s\<lparr>quantity := parseInt v\<rparr>"
    by (simp add: handleInputChange_cases)
  have 2: "isNaN (parseInt v) \<or> \<not> js_ge (parseInt v) (Finite 1) \<longrightarrow> handleInputChange v s = s"
    by (auto simp: handleInputChange_cases)
  have 3: "parseInt v = Finite k \<longrightarrow> js_ge (parseInt v) (Finite 1) = (1 \<le> k)"
    by (simp add: js_ge_def)
  have 4: "S \<noteq> [] \<and> (\<forall>c\<in>set S. \<exists>d<10. c = digit_char d) \<longrightarrow>
        parseInt S = Number_value (radix_value 10 S)"
    using parseInt_digits by blast
  have 5: "parseInt (Number_toString n) = Number_value n"
    by (rule parseInt_Number_toString)
  have 6: "1 \<le> n \<and> n < 2 ^ 53 \<longrightarrow>
        handleInputChange (Number_toString n) s = s\<lparr>quantity := Finite n\<rparr>"
    using Number_value_exact[of n]
    by (auto simp: handleInputChange_cases parseInt_Number_toString isNaN_def js_ge_def)
  have 7: "n < 1 \<longrightarrow> handleInputChange (Number_toString n) s = s"
    using Number_value_below_one[of n]
    by (simp add: handleInputChange_cases parseInt_Number_toString js_ge_def)
  from 1 2 3 4 5 6 7 show ?thesis by (intro conjI)
qed

theorem direct_input_verbatim_witness:
  "handleInputChange (str ''11'') initialState = initialState\<lparr>quantity := Finite 11\<rparr>
   \<and> handleInputChange (str ''abc'') initialState = initialState
   \<and> handleInputChange (str ''0'') initialState = initialState
   \<and> handleInputChange (str ''9007199254740993'') initialState
       = initialState\<lparr>quantity := Finite 9007199254740992\<rparr>
   \<and> handleInputChange (replicate 309 0x39) initialState
       = initialState\<lparr>quantity := PosInfinity\<rparr>
   \<and> handleInputChange (str ''  +42px'') initialState
       = initialState\<lparr>quantity := Finite 42\<rparr>
   \<and> handleInputChange (Number_toString 250) initialState
       = initialState\<lparr>quantity := Finite 250\<rparr>
   \<and> handleInputChange (Number_toString (- 5)) initialState = initialState"
proof -
  have a: "parseInt (str ''11'') = Finite 11" by code_simp
  have b: "parseInt (str ''abc'') = NaN" by code_simp
  have c: "parseInt (str ''0'') = Finite 0" by code_simp
  have d: "parseInt (str ''9007199254740993'') = Finite 9007199254740992" by code_simp
  have e: "parseInt (str ''  +42px'') = Finite 42" by code_simp
  have f: "parseInt (replicate 309 0x39) = PosInfinity" by code_simp
  have 1: "handleInputChange (str ''11'') initialState = initialState\<lparr>quantity := Finite 11\<rparr>"
    using direct_input_verbatim [of "str ''11''" initialState] by (simp add: a isNaN_def js_ge_def)
  have 2: "handleInputChange (str ''abc'') initialState = initialState"
    using direct_input_verbatim [of "str ''abc''" initialState] by (simp add: b isNaN_def)
  have 3: "handleInputChange (str ''0'') initialState = initialState"
    using direct_input_verbatim [of "str ''0''" initialState] by (simp add: c js_ge_def)
  have 4: "handleInputChange (str ''9007199254740993'') initialState
       = initialState\<lparr>quantity := Finite 9007199254740992\<rparr>"
    using direct_input_verbatim [of "str ''9007199254740993''" initialState]
    by (simp add: d isNaN_def js_ge_def)
  have 5: "handleInputChange (replicate 309 0x39) initialState
       = initialState\<lparr>quantity := PosInfinity\<rparr>"
    using direct_input_verbatim [of "replicate 309 0x39" initialState]
    by (simp add: f isNaN_def js_ge_def)
  have 6: "handleInputChange (str ''  +42px'') initialState
       = initialState\<lparr>quantity := Finite 42\<rparr>"
    using direct_input_verbatim [of "str ''  +42px''" initialState]
    by (simp add: e isNaN_def js_ge_def)
  have 7: "handleInputChange (Number_toString 250) initialState
       = initialState\<lparr>quantity := Finite 250\<rparr>"
    using direct_input_verbatim [where n = 250 and s = initialState] by simp
  have 8: "handleInputChange (Number_toString (- 5)) initialState = initialState"
    using direct_input_verbatim [where n = "- 5" and s = initialState] by simp
  from 1 2 3 4 5 6 7 8 show ?thesis by (intro conjI)
qed

subsection \<open>The range of the quantity\<close>

text \<open>
  Every path keeps the quantity at 1 or more: the steppers by their \<open>min\<close> and \<open>max\<close>, the
  input by its guard.
\<close>

lemma quantity_lower_bound:
  assumes "js_le (Finite 1) (quantity s)"
  shows "js_le (Finite 1) (quantity (incrementQuantity s))"
    "js_le (Finite 1) (quantity (decrementQuantity s))"
    "js_le (Finite 1) (quantity (handleInputChange v s))"
proof -
  from assms have c: "(\<exists>q. quantity s = Finite q \<and> 1 \<le> q) \<or> quantity s = PosInfinity"
    by (cases "quantity s") auto
  show "js_le (Finite 1) (quantity (incrementQuantity s))"
    using c
    by (auto simp: incrementQuantity_def setQuantity_def Math_min_def isNaN_def)
  show "js_le (Finite 1) (quantity (decrementQuantity s))"
    using c
    by (auto simp: decrementQuantity_def setQuantity_def js_sub_def Math_max_def isNaN_def)
  show "js_le (Finite 1) (quantity (handleInputChange v s))"
    using assms by (simp add: handleInputChange_cases js_ge_def)
qed

text \<open>
  C1. The claim is that the quantity stays within 1 to 10 under the steppers and the
  direct input. The input path has no upper bound: from the initial state, an input of
  \<open>11\<close> is stored as 11, and after an input of \<open>15\<close> the increment button, which clamps,
  takes the quantity down to 10.
\<close>

theorem direct_input_exceeds_ten:
  "quantity initialState = Finite 1
   \<and> quantity (handleInputChange (str ''11'') initialState) = Finite 11
   \<and> \<not> js_le (quantity (handleInputChange (str ''11'') initialState)) (Finite 10)
   \<and> quantity (handleInputChange (str ''15'') initialState) = Finite 15
   \<and> quantity (incrementQuantity (handleInputChange (str ''15'') initialState)) = Finite 10"
proof -
  have a: "parseInt (str ''11'') = Finite 11" by code_simp
  have b: "parseInt (str ''15'') = Finite 15" by code_simp
  show ?thesis
    by (simp add: handleInputChange_cases a b initialState_def incrementQuantity_def
        setQuantity_def isNaN_def js_ge_def)
qed

subsection \<open>Cart-submission status\<close>

text \<open>
  C3. \<open>handleAddToCart\<close> sets the status to \<open>loading\<close> at once and registers its own
  resumption 1000 ms later. The resumption sets \<open>success\<close> if the draw of \<open>Math.random()\<close>
  exceeds 0.2 and \<open>error\<close> otherwise, and registers the return to \<open>idle\<close> 2000 ms later
  after \<open>success\<close> and 3000 ms later after \<open>error\<close>. So when no timer of an earlier
  submission is pending and nothing else is called, the status at time \<open>t\<close> is \<open>loading\<close>
  until 1000 ms have passed, then \<open>success\<close> for 2000 ms or \<open>error\<close> for 3000 ms, then
  \<open>idle\<close> for good. The draws in \<open>[0, 1)\<close> that end in \<open>success\<close> are exactly the open
  interval from 0.2 to 1, of length 0.8: the probability of \<open>success\<close> for a uniform draw.
\<close>

theorem add_to_cart_timeline:
  "cartStatus (handleAddToCart s) = loading
   \<and> timers (handleAddToCart s) = timers s @ [(clock s + 1000, ResumeAddToCart)]
   \<and> cartStatus (handleAddToCart_resume rnd s) = (if rnd (draws s) > 0.2 then success else error)
   \<and> timers (handleAddToCart_resume rnd s) =
       timers s @ [(clock s + (if rnd (draws s) > 0.2 then 2000 else 3000), SetIdle)]
   \<and> cartStatus (runCallback rnd SetIdle s) = idle
   \<and> {r. 0 \<le> r \<and> r < 1 \<and> cartStatus (handleAddToCart_resume (always r) s) = success}
       = {0.2 <..< 1}
   \<and> (timers s = [] \<longrightarrow>
        cartStatus (advance rnd t (handleAddToCart s)) =
          (if t < clock s + 1000 then loading
           else if rnd (draws s) > 0.2
             then (if t < clock s + 1000 + 2000 then success else idle)
             else (if t < clock s + 1000 + 3000 then error else idle)))"
  by (auto simp: advance.simps[of rnd t] handleAddToCart_def setTimeout_def setCartStatus_def
      fire_def runCallback_def handleAddToCart_resume_def Let_def always_def)

theorem add_to_cart_timeline_witness:
  "timers initialState = []
   \<and> cartStatus (handleAddToCart initialState) = loading
   \<and> cartStatus (advance (always 0.5) 999 (handleAddToCart initialState)) = loading
   \<and> cartStatus (advance (always 0.5) 1000 (handleAddToCart initialState)) = success
   \<and> cartStatus (advance (always 0.5) 2999 (handleAddToCart initialState)) = success
   \<and> cartStatus (advance (always 0.5) 3000 (handleAddToCart initialState)) = idle
   \<and> cartStatus (advance (always 0.2) 1000 (handleAddToCart initialState)) = error
   \<and> cartStatus (advance (always 0.2) 3999 (handleAddToCart initialState)) = error
   \<and> cartStatus (advance (always 0.2) 4000 (handleAddToCart initialState)) = idle"
proof -
  have h: "timers initialState = []" by (simp add: initialState_def)
  have c: "clock initialState = 0" by (simp add: initialState_def)
  show ?thesis
    using h add_to_cart_timeline [of initialState "always 0.5" 999]
      add_to_cart_timeline [of initialState "always 0.5" 1000]
      add_to_cart_timeline [of initialState "always 0.5" 2999]
      add_to_cart_timeline [of initialState "always 0.5" 3000]
      add_to_cart_timeline [of initialState "always 0.2" 1000]
      add_to_cart_timeline [of initialState "always 0.2" 3999]
      add_to_cart_timeline [of initialState "always 0.2" 4000]
    by (simp add: c always_def)
qed

lemma step_one_submission:
  assumes "one_submission s" "permitted x s"
  shows "one_submission (step rnd x s)
    \<and> (cartStatus (step rnd x s) = cartStatus s
       \<or> allowed_edge (cartStatus s) (cartStatus (step rnd x s)))"
proof (cases x)
  case TimerFires
  show ?thesis
  proof (cases "timers s")
    case Nil
    with assms TimerFires show ?thesis by simp
  next
    case (Cons t ts)
    with assms(1) have ts: "ts = []"
      by (auto simp: one_submission_def split: CartStatus.splits)
    with Cons assms(1) TimerFires show ?thesis
      by (cases "cartStatus s"; cases t)
        (auto simp: one_submission_def fire_def runCallback_def handleAddToCart_resume_def
          setTimeout_def setCartStatus_def Let_def allowed_edge_def)
  qed
next
  case (TimePasses d)
  with assms show ?thesis by (auto simp: one_submission_def split: option.splits)
qed (use assms in \<open>auto simp: one_submission_def incrementQuantity_def decrementQuantity_def
      setQuantity_def handleAddToCart_def setTimeout_def setCartStatus_def allowed_edge_def
      handleInputChange_def Let_def\<close>)

lemma edges_respected_from:
  "one_submission s \<Longrightarrow> submits_from_idle rnd ops s \<Longrightarrow> edges_respected rnd ops s"
proof (induction ops arbitrary: s)
  case Nil
  then show ?case by simp
next
  case (Cons x xs)
  then show ?case using step_one_submission[of s x rnd] by auto
qed

text \<open>
  C2, as the claim states it, fails: the claim is that no operation of the Product Action
  State moves the status along an edge other than the five listed. A submission that
  ends in \<open>error\<close> (draw 0.1) followed by a second call of \<open>handleAddToCart\<close>, the retry
  that the button offers in that state, moves the status from \<open>error\<close> to \<open>loading\<close>.
  When the retry comes 3500 ms after the first call, the timer of the first submission
  fires 500 ms later and moves the status from \<open>loading\<close> to \<open>idle\<close>. And \<open>setCartStatus\<close>,
  which the context exposes, moves the status from \<open>idle\<close> to \<open>success\<close> directly.
\<close>

theorem status_edges_counterexample:
  "cartStatus (run (always 0.1) [HandleAddToCart, TimePasses 1000, TimerFires] initialState)
     = error
   \<and> cartStatus (run (always 0.1) [HandleAddToCart, TimePasses 1000, TimerFires, HandleAddToCart]
       initialState) = loading
   \<and> \<not> allowed_edge error loading
   \<and> \<not> edges_respected (always 0.1)
         [HandleAddToCart, TimePasses 1000, TimerFires, HandleAddToCart] initialState
   \<and> cartStatus (run (always 0.1)
         [HandleAddToCart, TimePasses 1000, TimerFires, TimePasses 2500, HandleAddToCart,
          TimePasses 500] initialState) = loading
   \<and> cartStatus (run (always 0.1)
         [HandleAddToCart, TimePasses 1000, TimerFires, TimePasses 2500, HandleAddToCart,
          TimePasses 500, TimerFires] initialState) = idle
   \<and> \<not> allowed_edge loading idle
   \<and> cartStatus (run (always 0.1) [SetCartStatus success] initialState) = success
   \<and> \<not> allowed_edge idle success"
  by (simp add: initialState_def handleAddToCart_def setTimeout_def setCartStatus_def
      fire_def runCallback_def handleAddToCart_resume_def Let_def allowed_edge_def always_def)

text \<open>
  C2, amended. In every run from the initial state in which \<open>handleAddToCart\<close> is called
  only while the status is \<open>idle\<close> and \<open>setCartStatus\<close> is not called from outside, each
  step leaves the status as it is or moves it along one of \<open>idle\<close> to \<open>loading\<close>,
  \<open>loading\<close> to \<open>success\<close>, \<open>loading\<close> to \<open>error\<close>, \<open>success\<close> to \<open>idle\<close>, \<open>error\<close>
  to \<open>idle\<close>.
\<close>

theorem status_edges_when_submitted_from_idle:
  "submits_from_idle rnd ops initialState \<Longrightarrow> edges_respected rnd ops initialState"
  by (rule edges_respected_from) (simp_all add: one_submission_def initialState_def)

theorem status_edges_when_submitted_from_idle_witness:
  "submits_from_idle (always 0.5)
     [HandleAddToCart, TimePasses 1000, TimerFires, IncrementQuantity, TimePasses 2000,
      TimerFires, HandleAddToCart] initialState
   \<and> edges_respected (always 0.5)
     [HandleAddToCart, TimePasses 1000, TimerFires, IncrementQuantity, TimePasses 2000,
      TimerFires, HandleAddToCart] initialState"
proof -
  have h: "submits_from_idle (always 0.5)
     [HandleAddToCart, TimePasses 1000, TimerFires, IncrementQuantity, TimePasses 2000,
      TimerFires, HandleAddToCart] initialState"
    by (simp add: initialState_def handleAddToCart_def setTimeout_def setCartStatus_def
        fire_def runCallback_def handleAddToCart_resume_def Let_def always_def
        incrementQuantity_def setQuantity_def)
  from h status_edges_when_submitted_from_idle [OF h] show ?thesis by blast
qed

section \<open>Verification: Product Data Client\<close>

lemma kinds_exclusive:
  "\<not> (is_NotFound e \<and> is_HttpError st e)"
  "\<not> (is_NotFound e \<and> is_ConnectionError e)"
  "\<not> (is_HttpError st e \<and> is_ConnectionError e)"
  by (auto simp: is_NotFound_def is_HttpError_def is_ConnectionError_def
      connection_message_def str_def)

lemma get_message_Inl:
  "get_message v = Inl t \<longleftrightarrow> v = JNull \<and> t = ThrownOther ''TypeError''"
  by (cases v) auto

text \<open>A string converts to itself, and a conversion throws nothing but a \<open>TypeError\<close>.\<close>

lemma throw_new_ApiError_JStr [simp]:
  "throw_new_ApiError (JStr s) st e = ThrownApiError (ApiError s st e)"
  by (simp add: throw_new_ApiError_def)

lemma first_throw_Inl: "first_throw xs = Inl t \<Longrightarrow> Inl t \<in> set xs"
  by (induction xs rule: first_throw.induct) (auto split: sum.splits)

lemma ToString_Inl: "ToString v = Inl t \<Longrightarrow> t = ThrownOther ''TypeError''"
proof (induction v rule: ToString.induct)
  case (5 xs)
  from 5(2) have "first_throw (map (\<lambda>x. if x = JNull then Inr [] else ToString x) xs) = Inl t"
    by (simp split: sum.splits)
  then have "Inl t \<in> set (map (\<lambda>x. if x = JNull then Inr [] else ToString x) xs)"
    by (rule first_throw_Inl)
  then obtain x where "x \<in> set xs" "x \<noteq> JNull" "ToString x = Inl t"
    by (auto split: if_splits)
  then show ?case using 5(1) by blast
qed (auto split: if_splits)

lemma throw_new_ApiError_cases:
  "(\<exists>msg. ToString m = Inr msg \<and> throw_new_ApiError m st e = ThrownApiError (ApiError msg st e))
   \<or> (ToString m = Inl (ThrownOther ''TypeError'')
       \<and> throw_new_ApiError m st e = ThrownOther ''TypeError'')"
proof (cases "ToString m")
  case (Inl t)
  then show ?thesis using ToString_Inl[OF Inl] by (simp add: throw_new_ApiError_def)
next
  case (Inr msg)
  then show ?thesis by (simp add: throw_new_ApiError_def)
qed

text \<open>What the call does, one way of the request at a time.\<close>

lemma fetch_rejected:
  assumes "fetch (product_url B sku) = Rejected t"
  shows "getProductBySku B fetch sku =
    Inl (ThrownApiError (case t of ThrownApiError a \<Rightarrow> a
                          | ThrownOther x \<Rightarrow> ApiError connection_message 500 None))"
  using assms by (simp add: getProductBySku_def try_block_def split: thrown.splits)

lemma json_rejected:
  assumes "fetch (product_url B sku) = Resolved r" "ok r \<or> response_status r = 404"
    "response_json r = Rejected t"
  shows "getProductBySku B fetch sku =
    Inl (ThrownApiError (case t of ThrownApiError a \<Rightarrow> a
                          | ThrownOther x \<Rightarrow> ApiError connection_message 500 None))"
  using assms by (auto simp: getProductBySku_def try_block_def split: thrown.splits)

lemma ok_resolved:
  assumes "fetch (product_url B sku) = Resolved r" "ok r" "response_json r = Resolved p"
  shows "getProductBySku B fetch sku = Inr p"
  using assms by (simp add: getProductBySku_def try_block_def)

lemma not_found_converts:
  assumes "fetch (product_url B sku) = Resolved r" "response_status r = 404"
    "response_json r = Resolved body" "get_message body = Inr m"
    "ToString (or_else m (JStr not_found_message)) = Inr msg"
  shows "getProductBySku B fetch sku =
    Inl (ThrownApiError (ApiError msg 404 (Some (str ''Not Found''))))"
  using assms
  by (simp add: getProductBySku_def try_block_def ok_def throw_new_ApiError_def)

lemma not_found_throws:
  assumes "fetch (product_url B sku) = Resolved r" "response_status r = 404"
    "response_json r = Resolved body" "get_message body = Inr m"
    "ToString (or_else m (JStr not_found_message)) = Inl t"
  shows "getProductBySku B fetch sku = Inl (ThrownApiError (ApiError connection_message 500 None))"
  using assms ToString_Inl[OF assms(5)]
  by (simp add: getProductBySku_def try_block_def ok_def throw_new_ApiError_def)

lemma not_found_null:
  assumes "fetch (product_url B sku) = Resolved r" "response_status r = 404"
    "response_json r = Resolved JNull"
  shows "getProductBySku B fetch sku = Inl (ThrownApiError (ApiError connection_message 500 None))"
  using assms by (simp add: getProductBySku_def try_block_def ok_def)

lemma other_status:
  assumes "fetch (product_url B sku) = Resolved r" "\<not> ok r" "response_status r \<noteq> 404"
  shows "getProductBySku B fetch sku =
    Inl (ThrownApiError
      (ApiError (str ''Erro na API: '' @ Number_toString (response_status r))
         (response_status r) None))"
  using assms by (simp add: getProductBySku_def try_block_def)

lemma getProductBySku_never_raw: "getProductBySku B fetch sku \<noteq> Inl (ThrownOther x)"
  by (simp add: getProductBySku_def split: sum.splits thrown.splits)

lemma getProductBySku_throws_ApiError:
  "getProductBySku B fetch sku = Inl t \<Longrightarrow> \<exists>e. t = ThrownApiError e"
  using getProductBySku_never_raw[of B fetch sku] by (cases t) auto

lemma getProductBySku_exhaustive:
  "(\<exists>q. getProductBySku B fetch sku = Inr q)
   \<or> (\<exists>e. getProductBySku B fetch sku = Inl (ThrownApiError e)
         \<and> (is_NotFound e \<or> is_HttpError (status e) e \<or> is_ConnectionError e))
   \<or> (\<exists>b r'. (fetch (product_url B sku) = Rejected (ThrownApiError b)
              \<or> (fetch (product_url B sku) = Resolved r'
                  \<and> response_json r' = Rejected (ThrownApiError b)))
         \<and> getProductBySku B fetch sku = Inl (ThrownApiError b))"
proof (cases "fetch (product_url B sku)")
  case (Rejected t)
  then show ?thesis
    using fetch_rejected[where fetch=fetch and B=B and sku=sku, OF Rejected] by (cases t) (auto simp: is_ConnectionError_def)
next
  case (Resolved r)
  show ?thesis
  proof (cases "ok r \<or> response_status r = 404")
    case False
    then show ?thesis using other_status[where fetch=fetch and B=B and sku=sku, OF Resolved] by (simp add: is_HttpError_def)
  next
    case True
    show ?thesis
    proof (cases "response_json r")
      case (Rejected t)
      then show ?thesis
        using json_rejected[where fetch=fetch and B=B and sku=sku, OF Resolved True Rejected] Resolved
        by (cases t) (auto simp: is_ConnectionError_def)
    next
      case body: (Resolved body)
      show ?thesis
      proof (cases "ok r")
        case True
        then show ?thesis using ok_resolved[where fetch=fetch and B=B and sku=sku, OF Resolved True body] by simp
      next
        case False
        with True have nf: "response_status r = 404" by simp
        show ?thesis
        proof (cases "get_message body")
          case (Inl t)
          then have "body = JNull" by (simp add: get_message_Inl)
          then show ?thesis
            using not_found_null[where fetch=fetch and B=B and sku=sku, OF Resolved nf] body
            by (simp add: is_ConnectionError_def)
        next
          case m: (Inr m)
          show ?thesis
          proof (cases "ToString (or_else m (JStr not_found_message))")
            case (Inl t)
            then show ?thesis
              using not_found_throws[where fetch=fetch and B=B and sku=sku, OF Resolved nf body m]
              by (simp add: is_ConnectionError_def)
          next
            case (Inr msg)
            then show ?thesis
              using not_found_converts[where fetch=fetch and B=B and sku=sku, OF Resolved nf body m]
              by (simp add: is_NotFound_def)
          qed
        qed
      qed
    qed
  qed
qed

text \<open>
  C4, as the claim states it, fails: the claim is that a 404 response always ends in
  \<open>NotFound\<close>. When the body of the 404 response cannot be decoded, \<open>response.json()\<close>
  rejects inside the \<open>try\<close> block and the \<open>catch\<close> turns that into the connection error
  with status 500; the same happens when the body decodes to \<open>null\<close>.
\<close>

theorem not_found_counterexample:
  "\<not> ok (Response 404 (Rejected (ThrownOther ''SyntaxError'')))
   \<and> getProductBySku localhost
       (responds (Resolved (Response 404 (Rejected (ThrownOther ''SyntaxError'')))))
       (str ''INVALID-SKU'')
     = Inl (ThrownApiError (ApiError connection_message 500 None))
   \<and> getProductBySku localhost (responds (Resolved (Response 404 (Resolved JNull))))
       (str ''INVALID-SKU'')
     = Inl (ThrownApiError (ApiError connection_message 500 None))
   \<and> \<not> is_NotFound (ApiError connection_message 500 None)"
  by (simp add: getProductBySku_def try_block_def ok_def responds_def is_NotFound_def)

text \<open>
  C4, amended. Every invocation either returns the decoded body (a 2xx response whose
  body decodes) or throws an \<open>ApiError\<close>, never anything else: \<open>NotFound\<close> when the
  backend responds 404 with a body that decodes to something other than \<open>null\<close> and whose
  message (the property \<open>message\<close> of the body or, when that is missing or falsy, the
  default text) converts to a string; \<open>HttpError\<close> carrying the status for any other
  non-2xx response; \<open>ConnectionError\<close> for a transport failure, for a body that fails to
  decode after a 2xx or a 404 response, and for a 404 body that decodes to \<open>null\<close> or whose
  message does not convert to a string (an object with an own \<open>toString\<close> property, as in
  \<open>{"message":{"toString":1}}\<close>); and a rejection that already is an \<open>ApiError\<close> is thrown
  on unchanged. These cases cover every way the call can go, and no \<open>ApiError\<close> is of two
  kinds.
\<close>

theorem getProductBySku_outcomes:
  "(\<forall>x. getProductBySku API_BASE_URL fetch sku \<noteq> Inl (ThrownOther x))
   \<and> (fetch (product_url API_BASE_URL sku) = Resolved r \<and> ok r
        \<and> response_json r = Resolved p \<longrightarrow>
        getProductBySku API_BASE_URL fetch sku = Inr p)
   \<and> (fetch (product_url API_BASE_URL sku) = Resolved r \<and> response_status r = 404
        \<and> response_json r = Resolved body \<and> get_message body = Inr m
        \<and> ToString (or_else m (JStr not_found_message)) = Inr msg \<longrightarrow>
        (\<exists>e. getProductBySku API_BASE_URL fetch sku = Inl (ThrownApiError e) \<and> is_NotFound e))
   \<and> (fetch (product_url API_BASE_URL sku) = Resolved r \<and> \<not> ok r
        \<and> response_status r \<noteq> 404 \<longrightarrow>
        (\<exists>e. getProductBySku API_BASE_URL fetch sku = Inl (ThrownApiError e)
           \<and> is_HttpError (response_status r) e))
   \<and> (fetch (product_url API_BASE_URL sku) = Rejected (ThrownOther x)
        \<or> (fetch (product_url API_BASE_URL sku) = Resolved r
            \<and> (ok r \<or> response_status r = 404)
            \<and> response_json r = Rejected (ThrownOther x))
        \<or> (fetch (product_url API_BASE_URL sku) = Resolved r \<and> response_status r = 404
            \<and> response_json r = Resolved JNull)
        \<or> (fetch (product_url API_BASE_URL sku) = Resolved r \<and> response_status r = 404
            \<and> response_json r = Resolved body \<and> get_message body = Inr m
            \<and> ToString (or_else m (JStr not_found_message)) = Inl t)
        \<longrightarrow>
        (\<exists>e. getProductBySku API_BASE_URL fetch sku = Inl (ThrownApiError e)
           \<and> is_ConnectionError e))
   \<and> (fetch (product_url API_BASE_URL sku) = Rejected (ThrownApiError a)
        \<or> (fetch (product_url API_BASE_URL sku) = Resolved r
            \<and> (ok r \<or> response_status r = 404)
            \<and> response_json r = Rejected (ThrownApiError a))
        \<longrightarrow> getProductBySku API_BASE_URL fetch sku = Inl (ThrownApiError a))
   \<and> ((\<exists>q. getProductBySku API_BASE_URL fetch sku = Inr q)
        \<or> (\<exists>e. getProductBySku API_BASE_URL fetch sku = Inl (ThrownApiError e)
              \<and> (is_NotFound e \<or> is_HttpError (status e) e \<or> is_ConnectionError e))
        \<or> (\<exists>b r'. (fetch (product_url API_BASE_URL sku) = Rejected (ThrownApiError b)
                   \<or> (fetch (product_url API_BASE_URL sku) = Resolved r'
                       \<and> response_json r' = Rejected (ThrownApiError b)))
              \<and> getProductBySku API_BASE_URL fetch sku = Inl (ThrownApiError b)))
   \<and> \<not> (is_NotFound e' \<and> is_HttpError st e') \<and> \<not> (is_NotFound e' \<and> is_ConnectionError e')
   \<and> \<not> (is_HttpError st e' \<and> is_ConnectionError e')"
proof -
  let ?R = "getProductBySku API_BASE_URL fetch sku"
  let ?f = "fetch (product_url API_BASE_URL sku)"
  have 1: "\<forall>x. ?R \<noteq> Inl (ThrownOther x)" by (simp add: getProductBySku_never_raw)
  have 2: "?f = Resolved r \<and> ok r \<and> response_json r = Resolved p \<longrightarrow> ?R = Inr p"
    using ok_resolved by blast
  have 3: "?f = Resolved r \<and> response_status r = 404 \<and> response_json r = Resolved body
      \<and> get_message body = Inr m \<and> ToString (or_else m (JStr not_found_message)) = Inr msg
      \<longrightarrow> (\<exists>e. ?R = Inl (ThrownApiError e) \<and> is_NotFound e)"
    using not_found_converts[of fetch API_BASE_URL sku r body m msg]
    by (simp add: is_NotFound_def)
  have 4: "?f = Resolved r \<and> \<not> ok r \<and> response_status r \<noteq> 404 \<longrightarrow>
      (\<exists>e. ?R = Inl (ThrownApiError e) \<and> is_HttpError (response_status r) e)"
    using other_status[of fetch API_BASE_URL sku r] by (simp add: is_HttpError_def)
  have 5: "?f = Rejected (ThrownOther x)
      \<or> (?f = Resolved r \<and> (ok r \<or> response_status r = 404)
          \<and> response_json r = Rejected (ThrownOther x))
      \<or> (?f = Resolved r \<and> response_status r = 404 \<and> response_json r = Resolved JNull)
      \<or> (?f = Resolved r \<and> response_status r = 404 \<and> response_json r = Resolved body
          \<and> get_message body = Inr m
          \<and> ToString (or_else m (JStr not_found_message)) = Inl t)
      \<longrightarrow> (\<exists>e. ?R = Inl (ThrownApiError e) \<and> is_ConnectionError e)"
    using fetch_rejected[of fetch API_BASE_URL sku "ThrownOther x"]
      json_rejected[of fetch API_BASE_URL sku r "ThrownOther x"]
      not_found_null[of fetch API_BASE_URL sku r]
      not_found_throws[of fetch API_BASE_URL sku r body m t]
    by (auto simp: is_ConnectionError_def)
  have 6: "?f = Rejected (ThrownApiError a)
      \<or> (?f = Resolved r \<and> (ok r \<or> response_status r = 404)
          \<and> response_json r = Rejected (ThrownApiError a))
      \<longrightarrow> ?R = Inl (ThrownApiError a)"
    using fetch_rejected[of fetch API_BASE_URL sku "ThrownApiError a"]
      json_rejected[of fetch API_BASE_URL sku r "ThrownApiError a"]
    by auto
  note 7 = getProductBySku_exhaustive[of API_BASE_URL fetch sku]
  have 8: "\<not> (is_NotFound e' \<and> is_HttpError st e')"
    "\<not> (is_NotFound e' \<and> is_ConnectionError e')"
    "\<not> (is_HttpError st e' \<and> is_ConnectionError e')"
    by (rule kinds_exclusive)+
  from 1 2 3 4 5 6 7 8 show ?thesis by (intro conjI)
qed

theorem getProductBySku_outcomes_witness:
  "getProductBySku localhost
     (responds (Resolved (Response 200 (Resolved (JObj [(str ''sku'', JStr (str ''TEST-001''))])))))
     (str ''TEST-001'')
     = Inr (JObj [(str ''sku'', JStr (str ''TEST-001''))])
   \<and> (\<exists>e. getProductBySku localhost
         (responds (Resolved (Response 404 (Resolved (JObj [])))))
         (str ''TEST-001'') = Inl (ThrownApiError e) \<and> is_NotFound e)
   \<and> (\<exists>e. getProductBySku localhost
         (responds (Resolved (Response 404 (Resolved
            (JObj [(str ''message'', JObj [(str ''toString'', JNum 1)])])))))
         (str ''TEST-001'') = Inl (ThrownApiError e) \<and> is_ConnectionError e)
   \<and> (\<exists>e. getProductBySku localhost
         (responds (Resolved (Response 503 (Resolved JNull))))
         (str ''TEST-001'') = Inl (ThrownApiError e) \<and> is_HttpError 503 e)
   \<and> (\<exists>e. getProductBySku localhost
         (responds (Rejected (ThrownOther ''TypeError'')))
         (str ''TEST-001'') = Inl (ThrownApiError e) \<and> is_ConnectionError e)
   \<and> getProductBySku localhost
         (responds (Rejected (ThrownApiError (ApiError (str ''Original error'') 400 None))))
         (str ''TEST-001'') = Inl (ThrownApiError (ApiError (str ''Original error'') 400 None))"
proof -
  let ?u = "str ''TEST-001''"
  let ?P = "JObj [(str ''sku'', JStr (str ''TEST-001''))]"
  let ?r1 = "Response 200 (Resolved ?P)"
  let ?r2 = "Response 404 (Resolved (JObj []))"
  let ?r3 = "Response 503 (Resolved JNull)"
  let ?M = "JObj [(str ''toString'', JNum 1)]"
  let ?B = "JObj [(str ''message'', ?M)]"
  let ?r6 = "Response 404 (Resolved ?B)"
  let ?a = "ApiError (str ''Original error'') 400 None"
  have h1: "responds (Resolved ?r1) (product_url localhost ?u) = Resolved ?r1 \<and> ok ?r1
      \<and> response_json ?r1 = Resolved ?P"
    by (simp add: responds_def ok_def)
  have h2: "responds (Resolved ?r2) (product_url localhost ?u) = Resolved ?r2
      \<and> response_status ?r2 = 404 \<and> response_json ?r2 = Resolved (JObj [])
      \<and> get_message (JObj []) = Inr None
      \<and> ToString (or_else None (JStr not_found_message)) = Inr not_found_message"
    by (simp add: responds_def)
  have h6: "responds (Resolved ?r6) (product_url localhost ?u) = Resolved ?r6
      \<and> response_status ?r6 = 404 \<and> response_json ?r6 = Resolved ?B
      \<and> get_message ?B = Inr (Some ?M)
      \<and> ToString (or_else (Some ?M) (JStr not_found_message)) = Inl (ThrownOther ''TypeError'')"
    by (simp add: responds_def)
  have h3: "responds (Resolved ?r3) (product_url localhost ?u) = Resolved ?r3 \<and> \<not> ok ?r3
      \<and> response_status ?r3 \<noteq> 404"
    by (simp add: responds_def ok_def)
  have s3: "response_status ?r3 = 503" by simp
  have h4: "responds (Rejected (ThrownOther ''TypeError'')) (product_url localhost ?u)
      = Rejected (ThrownOther ''TypeError'')"
    by (simp add: responds_def)
  have h5: "responds (Rejected (ThrownApiError ?a)) (product_url localhost ?u)
      = Rejected (ThrownApiError ?a)"
    by (simp add: responds_def)
  have c1: "getProductBySku localhost (responds (Resolved ?r1)) ?u = Inr ?P"
    using h1 getProductBySku_outcomes
      [where API_BASE_URL = localhost and fetch = "responds (Resolved ?r1)" and sku = ?u
        and r = ?r1 and p = ?P]
    by blast
  have c2: "\<exists>e. getProductBySku localhost (responds (Resolved ?r2)) ?u = Inl (ThrownApiError e)
      \<and> is_NotFound e"
    using h2 getProductBySku_outcomes
      [where API_BASE_URL = localhost and fetch = "responds (Resolved ?r2)" and sku = ?u
        and r = ?r2 and body = "JObj []" and m = None and msg = not_found_message]
    by blast
  have c6: "\<exists>e. getProductBySku localhost (responds (Resolved ?r6)) ?u = Inl (ThrownApiError e)
      \<and> is_ConnectionError e"
    using h6 getProductBySku_outcomes
      [where API_BASE_URL = localhost and fetch = "responds (Resolved ?r6)" and sku = ?u
        and r = ?r6 and body = ?B and m = "Some ?M" and t = "ThrownOther ''TypeError''"]
    by blast
  have c3: "\<exists>e. getProductBySku localhost (responds (Resolved ?r3)) ?u = Inl (ThrownApiError e)
      \<and> is_HttpError (response_status ?r3) e"
    using h3 getProductBySku_outcomes
      [where API_BASE_URL = localhost and fetch = "responds (Resolved ?r3)" and sku = ?u
        and r = ?r3]
    by blast
  have c4: "\<exists>e. getProductBySku localhost (responds (Rejected (ThrownOther ''TypeError''))) ?u
      = Inl (ThrownApiError e) \<and> is_ConnectionError e"
    using h4 getProductBySku_outcomes
      [where API_BASE_URL = localhost and fetch = "responds (Rejected (ThrownOther ''TypeError''))"
        and sku = ?u and x = "''TypeError''"]
    by blast
  have c5: "getProductBySku localhost (responds (Rejected (ThrownApiError ?a))) ?u
      = Inl (ThrownApiError ?a)"
    using h5 getProductBySku_outcomes
      [where API_BASE_URL = localhost and fetch = "responds (Rejected (ThrownApiError ?a))"
        and sku = ?u and a = ?a]
    by blast
  from c1 c2 c6 c3 [unfolded s3] c4 c5 show ?thesis by blast
qed

text \<open>
  C9. Whatever \<open>getProductBySku\<close> throws is an \<open>ApiError\<close>. A transport failure (a
  rejected \<open>fetch\<close>) and a body that fails to decode, where the rejection is not itself an
  \<open>ApiError\<close>, are thrown as the \<open>ApiError\<close> with the fixed message
  \<open>connection_message\<close> and status 500; a
  backend response with status 500 is thrown as an \<open>ApiError\<close> with status 500 too, so
  the two agree on the status field.
\<close>

theorem failures_are_ApiError:
  "(\<forall>t. getProductBySku API_BASE_URL fetch sku = Inl t \<longrightarrow> (\<exists>e. t = ThrownApiError e))
   \<and> (fetch (product_url API_BASE_URL sku) = Rejected (ThrownOther x)
        \<or> (fetch (product_url API_BASE_URL sku) = Resolved r
            \<and> (ok r \<or> response_status r = 404)
            \<and> response_json r = Rejected (ThrownOther x))
        \<longrightarrow>
        getProductBySku API_BASE_URL fetch sku
          = Inl (ThrownApiError (ApiError connection_message 500 None)))
   \<and> (fetch (product_url API_BASE_URL sku) = Resolved r \<and> response_status r = 500 \<longrightarrow>
        (\<exists>e. getProductBySku API_BASE_URL fetch sku = Inl (ThrownApiError e)
           \<and> status e = 500
           \<and> status e = status (ApiError connection_message 500 None)))"
proof -
  let ?R = "getProductBySku API_BASE_URL fetch sku"
  let ?f = "fetch (product_url API_BASE_URL sku)"
  have 1: "\<forall>t. ?R = Inl t \<longrightarrow> (\<exists>e. t = ThrownApiError e)"
    using getProductBySku_throws_ApiError by blast
  have 2: "?f = Rejected (ThrownOther x)
      \<or> (?f = Resolved r \<and> (ok r \<or> response_status r = 404)
          \<and> response_json r = Rejected (ThrownOther x))
      \<longrightarrow> ?R = Inl (ThrownApiError (ApiError connection_message 500 None))"
    using fetch_rejected[of fetch API_BASE_URL sku "ThrownOther x"]
      json_rejected[of fetch API_BASE_URL sku r "ThrownOther x"]
    by auto
  have 3: "?f = Resolved r \<and> response_status r = 500 \<longrightarrow>
      (\<exists>e. ?R = Inl (ThrownApiError e) \<and> status e = 500
         \<and> status e = status (ApiError connection_message 500 None))"
    using other_status[of fetch API_BASE_URL sku r] by (auto simp: ok_def)
  from 1 2 3 show ?thesis by (intro conjI)
qed

theorem failures_are_ApiError_witness:
  "getProductBySku localhost (responds (Rejected (ThrownOther ''Network error'')))
      (str ''TEST-001'')
     = Inl (ThrownApiError (ApiError connection_message 500 None))
   \<and> getProductBySku localhost
      (responds (Resolved (Response 200 (Rejected (ThrownOther ''JSON parse error'')))))
      (str ''TEST-001'')
     = Inl (ThrownApiError (ApiError connection_message 500 None))
   \<and> (\<exists>e. getProductBySku localhost (responds (Resolved (Response 500 (Resolved JNull))))
         (str ''TEST-001'') = Inl (ThrownApiError e) \<and> status e = 500)"
proof -
  let ?u = "str ''TEST-001''"
  let ?r = "Response 200 (Rejected (ThrownOther ''JSON parse error''))"
  let ?r5 = "Response 500 (Resolved JNull)"
  have h1: "responds (Rejected (ThrownOther ''Network error'')) (product_url localhost ?u)
      = Rejected (ThrownOther ''Network error'')"
    by (simp add: responds_def)
  have h2: "responds (Resolved ?r) (product_url localhost ?u) = Resolved ?r
      \<and> (ok ?r \<or> response_status ?r = 404)
      \<and> response_json ?r = Rejected (ThrownOther ''JSON parse error'')"
    by (simp add: responds_def ok_def)
  have h3: "responds (Resolved ?r5) (product_url localhost ?u) = Resolved ?r5
      \<and> response_status ?r5 = 500"
    by (simp add: responds_def)
  have c1: "getProductBySku localhost (responds (Rejected (ThrownOther ''Network error''))) ?u
      = Inl (ThrownApiError (ApiError connection_message 500 None))"
    using h1 failures_are_ApiError
      [of localhost "responds (Rejected (ThrownOther ''Network error''))" ?u "''Network error''"]
    by blast
  have c2: "getProductBySku localhost (responds (Resolved ?r)) ?u
      = Inl (ThrownApiError (ApiError connection_message 500 None))"
    using h2 failures_are_ApiError
      [of localhost "responds (Resolved ?r)" ?u "''JSON parse error''" ?r]
    by blast
  have c3: "\<exists>e. getProductBySku localhost (responds (Resolved ?r5)) ?u = Inl (ThrownApiError e)
      \<and> status e = 500"
    using h3 failures_are_ApiError [of localhost "responds (Resolved ?r5)" ?u _ ?r5]
    by blast
  from c1 c2 c3 show ?thesis by blast
qed

section \<open>Verification: \<open>truncateText\<close>\<close>

lemma length_trim_le: "length (trim s) \<le> length s"
proof -
  have "length (trim s) \<le> length (dropWhile is_space s)"
    unfolding trim_def using length_dropWhile_le[of is_space "rev (dropWhile is_space s)"] by simp
  also have "\<dots> \<le> length s" by (rule length_dropWhile_le)
  finally show ?thesis .
qed

lemma length_slice0: "0 \<le> e \<Longrightarrow> int (length (slice0 s e)) = min e (int (length s))"
  by (auto simp: slice0_def)

lemma length_slice0_le: "length (slice0 s e) \<le> length s"
  by (simp add: slice0_def)

lemma slice0_take: "0 \<le> e \<Longrightarrow> slice0 s e = take (nat e) s"
  by (simp add: slice0_def)

lemma lastIndexOf_range: "- 1 \<le> lastIndexOf s c \<and> lastIndexOf s c < int (length s)"
  by (induction s) (auto simp: Let_def)

lemma lastIndexOf_is_last:
  "0 \<le> lastIndexOf s c \<Longrightarrow>
     s ! nat (lastIndexOf s c) = c \<and> (\<forall>j. nat (lastIndexOf s c) < j \<and> j < length s \<longrightarrow> s ! j \<noteq> c)"
proof (induction s)
  case Nil
  then show ?case by simp
next
  case (Cons x xs)
  show ?case
  proof (cases "0 \<le> lastIndexOf xs c")
    case True
    with Cons.IH have ih: "xs ! nat (lastIndexOf xs c) = c"
      "\<And>j. nat (lastIndexOf xs c) < j \<Longrightarrow> j < length xs \<Longrightarrow> xs ! j \<noteq> c" by auto
    from True have eq: "lastIndexOf (x # xs) c = lastIndexOf xs c + 1" by (simp add: Let_def)
    have n: "nat (lastIndexOf xs c + 1) = Suc (nat (lastIndexOf xs c))" using True by simp
    show ?thesis unfolding eq n using ih by (auto simp: nth_Cons split: nat.splits)
  next
    case False
    with Cons.prems have x: "x = c" "lastIndexOf (x # xs) c = 0"
      by (auto simp: Let_def split: if_splits)
    have "c \<notin> set xs" using False
    proof (induction xs)
      case Nil then show ?case by simp
    next
      case (Cons y ys) then show ?case by (auto simp: Let_def split: if_splits)
    qed
    then show ?thesis using x by (auto simp: nth_Cons set_conv_nth split: nat.splits)
  qed
qed

lemma lastIndexOf_none: "lastIndexOf s c < 0 \<longleftrightarrow> c \<notin> set s"
  by (induction s) (auto simp: Let_def)

lemma truncateText_length_bound:
  assumes "suffix \<noteq> []" "int (length suffix) \<le> maxLength"
  shows "int (length (truncateText text maxLength suffix)) \<le> maxLength"
proof (cases "int (length text) \<le> maxLength")
  case True
  then show ?thesis by (simp add: truncateText_def)
next
  case False
  define a where "a = maxLength - int (length suffix)"
  have a0: "0 \<le> a" using assms by (simp add: a_def)
  have t: "int (length (slice0 text a)) \<le> a" using a0 by (simp add: length_slice0)
  have b: "int (length (slice0 (slice0 text a) i)) \<le> a" for i
    using t length_slice0_le[of "slice0 text a" i] by linarith
  let ?i = "lastIndexOf (slice0 text a) 0x20"
  have 1: "int (length (trim (slice0 text a))) \<le> a"
    using length_trim_le[of "slice0 text a"] t by linarith
  have 2: "int (length (trim (slice0 (slice0 text a) ?i))) \<le> a"
    using length_trim_le[of "slice0 (slice0 text a) ?i"] b[of ?i] by linarith
  have "truncateText text maxLength suffix = trim (slice0 text a) @ suffix
      \<or> truncateText text maxLength suffix = trim (slice0 (slice0 text a) ?i) @ suffix"
    using False assms by (simp add: truncateText_def Let_def a_def)
  then show ?thesis using 1 2 by (auto simp: a_def)
qed

text \<open>
  C10. For every text, every \<open>maxLength\<close> and every non-empty suffix no longer than
  \<open>maxLength\<close>, the string that \<open>truncateText\<close> returns has at most \<open>maxLength\<close> code
  units: the text itself when it fits, otherwise a trimmed prefix of at most
  \<open>maxLength - suffix.length\<close> code units followed by the suffix.
\<close>

theorem truncateText_within_maxLength:
  assumes "suffix \<noteq> []" "int (length suffix) \<le> maxLength"
  shows "int (length (truncateText text maxLength suffix)) \<le> maxLength"
  using assms by (rule truncateText_length_bound)

theorem truncateText_within_maxLength_witness:
  "str ''...'' \<noteq> [] \<and> int (length (str ''...'')) \<le> 20
   \<and> int (length (truncateText longText 20 (str ''...''))) \<le> 20"
proof -
  have h1: "str ''...'' \<noteq> []" by (simp add: str_def)
  have h2: "int (length (str ''...'')) \<le> 20" by (simp add: str_def)
  from h1 h2 truncateText_within_maxLength [OF h1 h2, of longText] show ?thesis by blast
qed

text \<open>
  C8, as the claim states it, fails in three ways. The result can be shorter than
  \<open>maxLength\<close>: the first text at 20 gives the 17 code units of \<open>This is a very...\<close>.
  The break is only tried when \<open>availableLength > 10\<close>: at \<open>maxLength\<close> 13 the available
  length is 10, breaking at the space at index 7 would discard 3 characters, which is
  not more than \<open>max(3, 0.3 * 10)\<close>, and yet the result keeps \<open>abcdefg hi\<close>. And the break
  looks for a space, not for any white space: with a tab at index 11 of 14 available
  characters, the result keeps the two characters after the tab.
\<close>

theorem truncateText_counterexample:
  "20 < length longText \<and> str ''...'' \<noteq> [] \<and> length (str ''...'') \<le> 20
   \<and> length (truncateText longText 20 (str ''...'')) = 17
   \<and> truncateText (str ''abcdefg hi jklmnop'') 13 (str ''...'') = str ''abcdefg hi...''
   \<and> lastIndexOf (take 10 (str ''abcdefg hi jklmnop'')) 0x20 = 7
   \<and> real_of_int (10 - 7) \<le> max 3 (real_of_int 10 * 0.3)
   \<and> truncateText (str ''abcdefghijk'' @ [0x09] @ str ''mnop qrstuv'') 17 (str ''...'')
       = str ''abcdefghijk'' @ [0x09] @ str ''mn...''
   \<and> is_space 0x09
   \<and> real_of_int (14 - 11) \<le> max 3 (real_of_int 14 * 0.3)"
proof -
  have 1: "length longText = 95" unfolding longText_def by code_simp
  have 2: "truncateText longText 20 (str ''...'') = str ''This is a very...''"
    unfolding longText_def by code_simp
  have 3: "truncateText (str ''abcdefg hi jklmnop'') 13 (str ''...'') = str ''abcdefg hi...''"
    by code_simp
  have 4: "lastIndexOf (take 10 (str ''abcdefg hi jklmnop'')) 0x20 = 7" by code_simp
  have 5: "truncateText (str ''abcdefghijk'' @ [0x09] @ str ''mnop qrstuv'') 17 (str ''...'')
       = str ''abcdefghijk'' @ [0x09] @ str ''mn...''" by code_simp
  have 6: "is_space 0x09" by (simp add: is_space_def)
  have 7: "length (str ''This is a very...'') = 17" by (simp add: str_def)
  have 8: "str ''...'' \<noteq> []" "length (str ''...'') \<le> 20" by (simp_all add: str_def)
  have 9: "real_of_int (10 - 7) \<le> max 3 (real_of_int 10 * 0.3)"
    "real_of_int (14 - 11) \<le> max 3 (real_of_int 14 * 0.3)" by simp_all
  have a: "20 < length longText" using 1 by simp
  have b: "length (truncateText longText 20 (str ''...'')) = 17" using 2 7 by simp
  from a b 3 4 5 6 8 9 show ?thesis by blast
qed

text \<open>
  C8, amended. For a text longer than \<open>maxLength\<close> and a non-empty suffix no longer than
  \<open>maxLength\<close>, with \<open>availableLength = maxLength - suffix.length\<close>, the result is
  \<open>trim(kept) + suffix\<close> and has at most \<open>maxLength\<close> code units, exactly \<open>maxLength\<close>
  when there is no break and \<open>trim\<close> removes nothing. \<open>kept\<close> is a prefix of the text: its
  first \<open>lastSpaceIndex\<close> code units when the last space (U+0020) among the first
  \<open>availableLength\<close> code units is at an index \<open>lastSpaceIndex > 0\<close>,
  \<open>availableLength > 10\<close> and \<open>availableLength - lastSpaceIndex\<close> is at most
  \<open>max(3, 0.3 * availableLength)\<close>; its first \<open>availableLength\<close> code units otherwise.
\<close>

theorem truncateText_break_rule:
  assumes "maxLength < int (length text)" "suffix \<noteq> []" "int (length suffix) \<le> maxLength"
  shows "let availableLength = maxLength - int (length suffix);
             region = take (nat availableLength) text;
             lastSpaceIndex = lastIndexOf region 0x20;
             breaks = (lastSpaceIndex > 0 \<and> availableLength > 10
               \<and> real_of_int (availableLength - lastSpaceIndex)
                    \<le> max 3 (real_of_int availableLength * 0.3));
             kept = (if breaks then take (nat lastSpaceIndex) text else region);
             result = truncateText text maxLength suffix
         in result = trim kept @ suffix
            \<and> int (length result) \<le> maxLength
            \<and> (\<not> breaks \<and> trim region = region \<longrightarrow> int (length result) = maxLength)
            \<and> (breaks \<longrightarrow> text ! nat lastSpaceIndex = 0x20
                 \<and> (\<forall>j. nat lastSpaceIndex < j \<and> j < nat availableLength \<longrightarrow> text ! j \<noteq> 0x20))"
proof -
  define a where "a = maxLength - int (length suffix)"
  define region where "region = take (nat a) text"
  define i where "i = lastIndexOf region 0x20"
  have a0: "0 \<le> a" using assms by (simp add: a_def)
  have s1: "slice0 text a = region" using a0 by (simp add: slice0_take region_def)
  have len: "length region = nat a" using assms a0 by (simp add: region_def a_def)
  have irange: "i < int (length region)" using lastIndexOf_range[of region "0x20"] by (simp add: i_def)
  have s2: "0 < i \<Longrightarrow> slice0 region i = take (nat i) text"
  proof -
    assume "0 < i"
    have "i < a" using irange len a0 by simp
    then have "nat i \<le> nat a" by simp
    then show ?thesis using \<open>0 < i\<close> by (simp add: slice0_take region_def min_absorb1)
  qed
  have res: "truncateText text maxLength suffix =
      trim (if 0 < i \<and> 10 < a \<and> real_of_int (a - i) \<le> max 3 (real_of_int a * 0.3)
            then take (nat i) text else region) @ suffix"
    using assms s2
    by (auto simp: truncateText_def Let_def a_def[symmetric] s1 i_def[symmetric] max_def)
  have last: "0 < i \<Longrightarrow> text ! nat i = 0x20
      \<and> (\<forall>j. nat i < j \<and> j < nat a \<longrightarrow> text ! j \<noteq> 0x20)"
  proof -
    assume "0 < i"
    then have "0 \<le> lastIndexOf region 0x20" by (simp add: i_def)
    from lastIndexOf_is_last[OF this] have
      "region ! nat i = 0x20" "\<forall>j. nat i < j \<and> j < length region \<longrightarrow> region ! j \<noteq> 0x20"
      by (simp_all add: i_def)
    moreover have "nat i < nat a" using irange len a0 \<open>0 < i\<close> by simp
    moreover have "nat a \<le> length text" using assms a0 by (simp add: a_def)
    ultimately show ?thesis using len by (auto simp: region_def)
  qed
  have bound: "int (length (truncateText text maxLength suffix)) \<le> maxLength"
    by (rule truncateText_length_bound[OF assms(2,3)])
  have full: "trim region = region \<Longrightarrow> int (length (trim region @ suffix)) = maxLength"
    using len a0 by (simp add: a_def)
  show ?thesis
    unfolding Let_def a_def[symmetric] region_def[symmetric] i_def[symmetric]
    using res last bound full by auto
qed

theorem truncateText_break_rule_witness:
  "20 < int (length quickFox) \<and> str ''...'' \<noteq> [] \<and> int (length (str ''...'')) \<le> 20
   \<and> truncateText quickFox 20 (str ''...'') = trim (take 15 quickFox) @ str ''...''
   \<and> int (length (truncateText quickFox 20 (str ''...''))) \<le> 20
   \<and> quickFox ! 15 = 0x20"
proof -
  have h1: "20 < int (length quickFox)" by (simp add: quickFox_def str_def)
  have h2: "str ''...'' \<noteq> []" by (simp add: str_def)
  have h3: "int (length (str ''...'')) \<le> 20" by (simp add: str_def)
  have e1: "lastIndexOf (take 17 quickFox) 0x20 = 15" unfolding quickFox_def by code_simp
  have e2: "20 - int (length (str ''...'')) = 17" by (simp add: str_def)
  note R = truncateText_break_rule [OF h1 h2 h3, unfolded Let_def e2]
  have c1: "truncateText quickFox 20 (str ''...'') = trim (take 15 quickFox) @ str ''...''"
    using R by (simp add: e1)
  have c2: "int (length (truncateText quickFox 20 (str ''...''))) \<le> 20"
    using R by blast
  have c3: "quickFox ! 15 = 0x20"
    using R by (simp add: e1)
  from h1 h2 h3 c1 c2 c3 show ?thesis by blast
qed

section \<open>Verification: \<open>generateSlug\<close>\<close>

lemma slug_char_unat:
  "slug_char c \<longleftrightarrow> (97 \<le> unat c \<and> unat c \<le> 122) \<or> (48 \<le> unat c \<and> unat c \<le> 57) \<or> unat c = 45"
  by (simp add: slug_char_def is_lower_or_digit_def hyphen_def word_le_nat_alt word_unat_eq_iff)

lemma slug_char_classes:
  assumes "slug_char c"
  shows "\<not> is_space c" "\<not> is_combining_mark c" "\<not> is_special c"
proof -
  from assms have u: "45 \<le> unat c" "unat c \<le> 122" by (auto simp: slug_char_unat)
  then show "\<not> is_space c"
    by (simp add: is_space_def word_le_nat_alt word_unat_eq_iff)
  from u show "\<not> is_combining_mark c"
    by (simp add: is_combining_mark_def word_le_nat_alt)
  from assms show "\<not> is_special c" by (auto simp: is_special_def slug_char_def)
qed

lemma set_replace_runs:
  "set (replace_runs P r s) \<subseteq> set r \<union> {c \<in> set s. \<not> P c}"
proof (induction P r s rule: replace_runs.induct)
  case (1 P r)
  then show ?case by simp
next
  case (2 P r c cs)
  then show ?case using set_dropWhileD[of _ P cs] by (auto split: if_splits)
qed

lemma no_adjacent_Cons: "\<not> P c \<Longrightarrow> no_adjacent P (c # s) = no_adjacent P s"
  by (cases s) auto

lemma no_adjacent_Cons2: "\<not> P d \<Longrightarrow> no_adjacent P (c # d # s) = no_adjacent P s"
  by (simp add: no_adjacent_Cons)

lemma no_adjacent_replace_runs: "no_adjacent P (replace_runs P [h] s)"
proof (induction P "[h]" s rule: replace_runs.induct)
  case (1 P)
  then show ?case by simp
next
  case (2 P c cs)
  show ?case
  proof (cases "P c")
    case True
    show ?thesis
    proof (cases "dropWhile P cs")
      case Nil
      with True show ?thesis by (simp del: dropWhile_eq_Nil_conv)
    next
      case (Cons d t)
      then have nd: "\<not> P d" using hd_dropWhile[of P cs] by auto
      from 2(1)[OF True] Cons nd have "no_adjacent P (d # replace_runs P [h] t)" by simp
      with True Cons nd show ?thesis by (simp add: no_adjacent_Cons)
    qed
  next
    case False
    with 2(2) show ?thesis by (simp add: no_adjacent_Cons)
  qed
qed

lemma replace_runs_id:
  "(\<forall>c\<in>set s. P c \<longrightarrow> c = h) \<Longrightarrow> no_adjacent P s \<Longrightarrow> replace_runs P [h] s = s"
proof (induction P "[h]" s rule: replace_runs.induct)
  case (1 P)
  then show ?case by simp
next
  case (2 P c cs)
  show ?case
  proof (cases "P c")
    case True
    with 2(3) have ch: "c = h" by simp
    have dw: "dropWhile P cs = cs" using True 2(4) by (cases cs) auto
    have "no_adjacent P cs" using 2(4) by (cases cs) auto
    with 2(1)[OF True] 2(3) dw have "replace_runs P [h] cs = cs" by simp
    with True ch dw show ?thesis by simp
  next
    case False
    with 2(2,3,4) show ?thesis by (simp add: no_adjacent_Cons)
  qed
qed

lemma replace_runs_none: "\<forall>c\<in>set s. \<not> P c \<Longrightarrow> replace_runs P r s = s"
  by (induction s) auto

lemma no_adjacent_append:
  "no_adjacent P (xs @ ys) \<Longrightarrow> no_adjacent P xs \<and> no_adjacent P ys"
proof (induction P xs rule: no_adjacent.induct)
  case (1 P)
  then show ?case by simp
next
  case (2 P c)
  then show ?case by (cases ys) auto
next
  case (3 P c d s)
  then show ?case by auto
qed

lemma strip_decompose:
  "\<exists>a b. s = a @ rev (dropWhile P (rev (dropWhile P s))) @ b"
proof -
  let ?t = "dropWhile P s"
  have "s = takeWhile P s @ ?t" by simp
  moreover have "?t = rev (dropWhile P (rev ?t)) @ rev (takeWhile P (rev ?t))"
    by (metis rev_append rev_rev_ident takeWhile_dropWhile_id)
  ultimately show ?thesis by metis
qed

lemma strip_ends:
  assumes "rev (dropWhile P (rev (dropWhile P s))) \<noteq> []"
  shows "\<not> P (hd (rev (dropWhile P (rev (dropWhile P s)))))"
    and "\<not> P (last (rev (dropWhile P (rev (dropWhile P s)))))"
proof -
  let ?t = "dropWhile P s"
  let ?u = "rev (dropWhile P (rev ?t))"
  have t: "?t = ?u @ rev (takeWhile P (rev ?t))"
    by (metis rev_append rev_rev_ident takeWhile_dropWhile_id)
  have tne: "?t \<noteq> []"
  proof
    assume "?t = []"
    with assms show False by simp
  qed
  have "hd ?u = hd ?t" using t assms by (metis hd_append2)
  moreover have "\<not> P (hd ?t)" using tne hd_dropWhile by blast
  ultimately show "\<not> P (hd ?u)" by simp
  from assms have d: "dropWhile P (rev ?t) \<noteq> []" by simp
  then have "\<not> P (hd (dropWhile P (rev ?t)))" using hd_dropWhile by blast
  then show "\<not> P (last ?u)" using d by (simp add: last_rev)
qed

lemma strip_id:
  assumes "s = [] \<or> (\<not> P (hd s) \<and> \<not> P (last s))"
  shows "rev (dropWhile P (rev (dropWhile P s))) = s"
proof (cases s)
  case Nil
  then show ?thesis by simp
next
  case (Cons x xs)
  with assms have 1: "dropWhile P s = s" by simp
  have sne: "s \<noteq> []" using Cons by simp
  with assms have "\<not> P (last s)" by blast
  then have "\<not> P (hd (rev s))" using hd_rev[of s] by simp
  moreover have "rev s \<noteq> []" using sne by simp
  ultimately have "dropWhile P (rev s) = rev s" by (cases "rev s") auto
  with 1 show ?thesis by simp
qed

lemma slug_shape_matches: "slug_shape s \<Longrightarrow> s = [] \<or> matches_slug_pattern s"
proof (induction s rule: matches_slug_pattern.induct)
  case 1
  then show ?case by simp
next
  case (2 c)
  then show ?case by (auto simp: slug_shape_def slug_char_def is_hyphen_def)
next
  case (3 c d s)
  from 3(3) have c: "is_lower_or_digit c"
    by (auto simp: slug_shape_def slug_char_def is_hyphen_def)
  show ?case
  proof (cases "d = hyphen")
    case True
    with 3(3) have sne: "s \<noteq> []" by (auto simp: slug_shape_def is_hyphen_def)
    have "\<not> is_hyphen (hd s)" using 3(3) True sne
      by (cases s) (auto simp: slug_shape_def is_hyphen_def no_adjacent_Cons)
    moreover have "no_adjacent is_hyphen s" using 3(3) sne
      by (cases s) (auto simp: slug_shape_def)
    ultimately have "slug_shape s" using 3(3) sne by (auto simp: slug_shape_def)
    with 3(1)[OF True] sne c True show ?thesis by simp
  next
    case False
    with 3(3) have "slug_shape (d # s)" by (auto simp: slug_shape_def is_hyphen_def)
    with 3(2)[OF False] c False show ?thesis by simp
  qed
qed

lemma generateSlug_shape: "slug_shape (generateSlug toLowerCase normalizeNFD x)"
proof -
  define s2 where "s2 = delete_all is_special (delete_all is_combining_mark (normalizeNFD (toLowerCase x)))"
  define s3 where "s3 = replace_runs is_space [hyphen] s2"
  define s4 where "s4 = replace_runs is_hyphen [hyphen] s3"
  define s5 where "s5 = strip_hyphens s4"
  have c2: "\<forall>c\<in>set s2. is_lower_or_digit c \<or> is_space c \<or> c = hyphen"
    by (auto simp: s2_def delete_all_def is_special_def)
  have c3: "\<forall>c\<in>set s3. slug_char c"
    using set_replace_runs[of is_space "[hyphen]" s2] c2 by (auto simp: s3_def slug_char_def)
  have c4: "\<forall>c\<in>set s4. slug_char c"
    using set_replace_runs[of is_hyphen "[hyphen]" s3] c3 by (auto simp: s4_def slug_char_def)
  have n4: "no_adjacent is_hyphen s4" by (simp add: s4_def no_adjacent_replace_runs)
  obtain a b where ab: "s4 = a @ s5 @ b"
    using strip_decompose[of s4 is_hyphen] by (auto simp: s5_def strip_hyphens_def)
  have c5: "\<forall>c\<in>set s5. slug_char c" using c4 ab by auto
  have n5: "no_adjacent is_hyphen s5" using n4 ab no_adjacent_append by metis
  have e5: "s5 = [] \<or> (\<not> is_hyphen (hd s5) \<and> \<not> is_hyphen (last s5))"
    using strip_ends[of is_hyphen s4] by (auto simp: s5_def strip_hyphens_def)
  have t5: "trim s5 = s5"
  proof (cases "s5 = []")
    case True
    then show ?thesis by (simp add: trim_def)
  next
    case False
    then have "hd s5 \<in> set s5" "last s5 \<in> set s5" by simp_all
    with c5 have "\<not> is_space (hd s5)" "\<not> is_space (last s5)"
      using slug_char_classes(1) by blast+
    then show ?thesis unfolding trim_def by (intro strip_id) simp
  qed
  have "generateSlug toLowerCase normalizeNFD x = s5"
    by (simp add: generateSlug_def s5_def s4_def s3_def s2_def t5[unfolded s5_def s4_def s3_def s2_def])
  then show ?thesis using c5 n5 e5 by (simp add: slug_shape_def list_all_iff)
qed

lemma generateSlug_fixes_slugs:
  assumes "slug_shape s" "toLowerCase s = s" "normalizeNFD s = s"
  shows "generateSlug toLowerCase normalizeNFD s = s"
proof -
  from assms(1) have c: "\<forall>c\<in>set s. slug_char c" by (simp add: slug_shape_def list_all_iff)
  have 1: "delete_all is_combining_mark s = s"
    using c slug_char_classes(2) by (simp add: delete_all_def)
  have 2: "delete_all is_special s = s"
    using c slug_char_classes(3) by (simp add: delete_all_def)
  have 3: "replace_runs is_space [hyphen] s = s"
    using c slug_char_classes(1) by (intro replace_runs_none) blast
  have 4: "replace_runs is_hyphen [hyphen] s = s"
    using assms(1) by (intro replace_runs_id) (auto simp: slug_shape_def is_hyphen_def)
  have 5: "strip_hyphens s = s"
    unfolding strip_hyphens_def using assms(1) by (intro strip_id) (auto simp: slug_shape_def)
  have 6: "trim s = s"
  proof (cases "s = []")
    case True
    then show ?thesis by (simp add: trim_def)
  next
    case False
    then have "hd s \<in> set s" "last s \<in> set s" by simp_all
    with c have "\<not> is_space (hd s)" "\<not> is_space (last s)"
      using slug_char_classes(1) by blast+
    then show ?thesis unfolding trim_def by (intro strip_id) simp
  qed
  show ?thesis by (simp add: generateSlug_def assms(2,3) 1 2 3 4 5 6)
qed

text \<open>
  The matcher agrees with the regular expression read as a language: a non-empty run of
  letters and digits, followed by any number of groups of a hyphen and such a run.
\<close>

lemma lower_or_digit_not_hyphen: "is_lower_or_digit c \<Longrightarrow> c \<noteq> hyphen"
  by (auto simp: is_lower_or_digit_def hyphen_def word_le_nat_alt word_unat_eq_iff)

lemma matches_run_then:
  assumes "w \<noteq> []" "list_all is_lower_or_digit w"
    "rest = [] \<or> (hd rest = hyphen \<and> matches_slug_pattern (tl rest))"
  shows "matches_slug_pattern (w @ rest)"
  using assms
proof (induction w rule: matches_slug_pattern.induct)
  case 1
  then show ?case by simp
next
  case (2 c)
  then show ?case by (cases rest) auto
next
  case (3 c d s)
  from 3(4) have "d \<noteq> hyphen" by (simp add: lower_or_digit_not_hyphen)
  with 3 show ?case by simp
qed

lemma matches_runs:
  "w \<noteq> [] \<Longrightarrow> list_all is_lower_or_digit w \<Longrightarrow>
   list_all (\<lambda>v. v \<noteq> [] \<and> list_all is_lower_or_digit v) ws \<Longrightarrow>
   matches_slug_pattern (w @ concat (map ((#) hyphen) ws))"
proof (induction ws arbitrary: w)
  case Nil
  then show ?case using matches_run_then[of w "[]"] by simp
next
  case (Cons v vs)
  then have "matches_slug_pattern (v @ concat (map ((#) hyphen) vs))" by simp
  then show ?case
    using Cons.prems matches_run_then[of w "concat (map ((#) hyphen) (v # vs))"] by simp
qed

lemma matches_slug_pattern_iff:
  "matches_slug_pattern s \<longleftrightarrow>
     (\<exists>w ws. s = w @ concat (map ((#) hyphen) ws) \<and> w \<noteq> [] \<and> list_all is_lower_or_digit w
        \<and> list_all (\<lambda>v. v \<noteq> [] \<and> list_all is_lower_or_digit v) ws)"
proof
  show "matches_slug_pattern s \<Longrightarrow>
     \<exists>w ws. s = w @ concat (map ((#) hyphen) ws) \<and> w \<noteq> [] \<and> list_all is_lower_or_digit w
        \<and> list_all (\<lambda>v. v \<noteq> [] \<and> list_all is_lower_or_digit v) ws"
  proof (induction s rule: matches_slug_pattern.induct)
    case 1
    then show ?case by simp
  next
    case (2 c)
    then show ?case by (intro exI[of _ "[c]"] exI[of _ "[]"]) simp
  next
    case (3 c d s)
    from 3(3) have c: "is_lower_or_digit c" by simp
    show ?case
    proof (cases "d = hyphen")
      case True
      with 3 obtain w ws where "s = w @ concat (map ((#) hyphen) ws)" "w \<noteq> []"
        "list_all is_lower_or_digit w" "list_all (\<lambda>v. v \<noteq> [] \<and> list_all is_lower_or_digit v) ws"
        by auto
      with c True show ?thesis by (intro exI[of _ "[c]"] exI[of _ "w # ws"]) simp
    next
      case False
      with 3 obtain w ws where "d # s = w @ concat (map ((#) hyphen) ws)" "w \<noteq> []"
        "list_all is_lower_or_digit w" "list_all (\<lambda>v. v \<noteq> [] \<and> list_all is_lower_or_digit v) ws"
        by auto
      with c show ?thesis by (intro exI[of _ "c # w"] exI[of _ ws]) simp
    qed
  qed
qed (auto simp: matches_runs)

text \<open>
  On slugs the Latin-1 versions of the two runtime functions change nothing.
\<close>

lemma toLowerCase_latin1_slug: "list_all slug_char s \<Longrightarrow> toLowerCase_latin1 s = s"
  unfolding toLowerCase_latin1_def
  by (intro map_idI) (auto simp: list_all_iff slug_char_unat word_le_nat_alt)

lemma decompose_slug_char:
  assumes "slug_char c"
  shows "decompose c = [c]"
proof -
  from assms have u: "unat c \<le> 122" by (auto simp: slug_char_unat)
  then have "decompose_upper c = [c]"
    by (simp add: decompose_upper_def word_unat_eq_iff)
  with u show ?thesis by (simp add: decompose_def word_le_nat_alt word_unat_eq_iff)
qed

lemma normalizeNFD_latin1_slug: "list_all slug_char s \<Longrightarrow> normalizeNFD_latin1 s = s"
  by (induction s) (auto simp: normalizeNFD_latin1_def decompose_slug_char)

text \<open>
  C7. For every input, the output of \<open>generateSlug\<close> is empty or matches
  \<open>^[a-z0-9]+(-[a-z0-9]+)*$\<close>, whatever \<open>toLowerCase\<close> and \<open>normalize('NFD')\<close> do. And
  \<open>generateSlug\<close> is idempotent, given the one thing it needs of those two runtime
  functions: that they leave a string of lower-case ASCII letters, digits and hyphens as
  it is.
\<close>

theorem generateSlug_idempotent_and_shape:
  "(generateSlug toLowerCase normalizeNFD x = []
      \<or> matches_slug_pattern (generateSlug toLowerCase normalizeNFD x))
   \<and> ((\<forall>s. list_all slug_char s \<longrightarrow> toLowerCase s = s \<and> normalizeNFD s = s) \<longrightarrow>
        generateSlug toLowerCase normalizeNFD (generateSlug toLowerCase normalizeNFD x)
        = generateSlug toLowerCase normalizeNFD x)"
  using generateSlug_shape[of toLowerCase normalizeNFD x]
    slug_shape_matches generateSlug_fixes_slugs
  by (auto simp: slug_shape_def)

theorem generateSlug_idempotent_and_shape_witness:
  "generateSlug toLowerCase_latin1 normalizeNFD_latin1 sofa = str ''sofa-confortavel''
   \<and> matches_slug_pattern (generateSlug toLowerCase_latin1 normalizeNFD_latin1 sofa)
   \<and> generateSlug toLowerCase_latin1 normalizeNFD_latin1
        (generateSlug toLowerCase_latin1 normalizeNFD_latin1 sofa)
      = generateSlug toLowerCase_latin1 normalizeNFD_latin1 sofa"
proof -
  have h: "\<forall>s. list_all slug_char s \<longrightarrow>
      toLowerCase_latin1 s = s \<and> normalizeNFD_latin1 s = s"
    using toLowerCase_latin1_slug normalizeNFD_latin1_slug by blast
  have e: "generateSlug toLowerCase_latin1 normalizeNFD_latin1 sofa = str ''sofa-confortavel''"
    unfolding sofa_def by code_simp
  have ne: "generateSlug toLowerCase_latin1 normalizeNFD_latin1 sofa \<noteq> []"
    unfolding e by (simp add: str_def)
  from h e ne generateSlug_idempotent_and_shape [of toLowerCase_latin1 normalizeNFD_latin1 sofa]
  show ?thesis by blast
qed

end
